theory Spec2Isabelle
  imports Main "HOL-Library.Word" "HOL-Library.Multiset"
begin

unbundle bit_operations_syntax

section \<open>Data model of ausock.c\<close>

type_synonym u8 = "8 word"
type_synonym u16 = "16 word"
type_synonym u32 = "32 word"
type_synonym u64 = "64 word"

text \<open>
  The parameter block handed over by the host (\<^verbatim>\<open>struct ausrc_prm\<close> and
  \<^verbatim>\<open>struct auplay_prm\<close>). Both are declared in the host's header, which is not part of
  this module; only the three fields read by the allocators are kept. The channel count is
  a narrow unsigned field there; C promotes it to 32 bits before the multiplication, so
  the record holds the promoted value.
\<close>

record au_prm =
  srate :: u32
  ch :: u32
  ptime :: u32

text \<open>
  \<^verbatim>\<open>struct ausrc_st\<close> and \<^verbatim>\<open>struct auplay_st\<close>. The thread handle and the callback
  pointers (\<^verbatim>\<open>rh\<close>, \<^verbatim>\<open>errh\<close>, \<^verbatim>\<open>wh\<close>, \<^verbatim>\<open>arg\<close>) carry no data of their own; a call
  through one of them is an event of the trace below.
\<close>

record ausrc_st =
  run :: bool
  ptime :: u32
  sampc :: u32
  srate :: u32

record auplay_st =
  run :: bool
  ptime :: u32
  sampc :: u32
  srate :: u32

datatype alloc_error = ENOMEM | ThreadCreateFailed

text \<open>
  \<^verbatim>\<open>src_alloc\<close> and \<^verbatim>\<open>play_alloc\<close>. The two Booleans are the environment's answers:
  whether \<^verbatim>\<open>mem_zalloc\<close> returned a block and whether \<^verbatim>\<open>thread_create_name\<close>
  succeeded. All arithmetic is \<^verbatim>\<open>uint32_t\<close> arithmetic, so \<open>*\<close> wraps modulo \<open>2 ^ 32\<close>
  before the division.
\<close>

definition src_alloc :: "au_prm \<Rightarrow> bool \<Rightarrow> bool \<Rightarrow> alloc_error + ausrc_st" where
  "src_alloc prm mem_ok thread_ok =
     (if \<not> mem_ok then Inl ENOMEM
      else
        let st = \<lparr> ausrc_st.run = True,
                   ausrc_st.ptime = au_prm.ptime prm,
                   ausrc_st.sampc = au_prm.srate prm * au_prm.ch prm * au_prm.ptime prm div 1000,
                   ausrc_st.srate = au_prm.srate prm \<rparr>
        in if \<not> thread_ok then Inl ThreadCreateFailed else Inr st)"

definition play_alloc :: "au_prm \<Rightarrow> bool \<Rightarrow> bool \<Rightarrow> alloc_error + auplay_st" where
  "play_alloc prm mem_ok thread_ok =
     (if \<not> mem_ok then Inl ENOMEM
      else
        let st = \<lparr> auplay_st.run = True,
                   auplay_st.ptime = au_prm.ptime prm,
                   auplay_st.sampc = au_prm.srate prm * au_prm.ch prm * au_prm.ptime prm div 1000,
                   auplay_st.srate = au_prm.srate prm \<rparr>
        in if \<not> thread_ok then Inl ThreadCreateFailed else Inr st)"

section \<open>Frames, events and the shared state\<close>

text \<open>
  \<^verbatim>\<open>struct auframe\<close> as filled in by \<^verbatim>\<open>auframe_init\<close> (a function of the host's media
  library): it stores its arguments. The sample buffer is kept as the bytes the socket
  delivers; \<open>samples_of\<close> reads them as little-endian 16-bit samples.
\<close>

datatype aufmt = AUFMT_S16LE

record auframe =
  fmt :: aufmt
  sampv :: "u8 list"
  sampc :: u32
  srate :: u32
  ch :: u8

definition auframe_init :: "aufmt \<Rightarrow> u8 list \<Rightarrow> u32 \<Rightarrow> u32 \<Rightarrow> u8 \<Rightarrow> auframe" where
  "auframe_init f buf n r c =
     \<lparr> auframe.fmt = f, auframe.sampv = buf, auframe.sampc = n,
       auframe.srate = r, auframe.ch = c \<rparr>"

fun samples_of :: "u8 list \<Rightarrow> 16 word list" where
  "samples_of (lo # hi # bs) = (ucast lo OR push_bit 8 (ucast hi)) # samples_of bs"
| "samples_of _ = []"

text \<open>
  Everything the module does to the outside world is recorded, in order, in a trace:
  system calls with their arguments and results, and calls through the host's callbacks.
  \<^item> \<open>EvAccept r\<close>: \<^verbatim>\<open>accept(listen_fd, NULL, NULL)\<close> returned \<open>r\<close>;
  \<^item> \<open>EvSetBlocking fd\<close>: \<^verbatim>\<open>fcntl(fd, F_SETFL, 0)\<close>; \<open>EvClose fd\<close>: \<^verbatim>\<open>close(fd)\<close>;
  \<^item> \<open>EvPoll fd t\<close>: \<^verbatim>\<open>poll\<close> on \<open>fd\<close> for \<^verbatim>\<open>POLLIN\<close> with timeout \<open>t\<close> ms;
  \<^item> \<open>EvRead fd cnt n us\<close>: \<^verbatim>\<open>read\<close> of up to \<open>cnt\<close> bytes returned \<open>n\<close> after
    \<open>us\<close> microseconds;
  \<^item> \<open>EvWrite fd bs n\<close>: \<^verbatim>\<open>write\<close> offered the bytes \<open>bs\<close> and returned \<open>n\<close>;
  \<^item> \<open>EvSleep d\<close>: \<^verbatim>\<open>usleep(d)\<close>;
  \<^item> \<open>EvRh af\<close>, \<open>EvWh af\<close>: the host's \<^verbatim>\<open>rh\<close> or \<^verbatim>\<open>wh\<close> called on frame \<open>af\<close>;
  \<^item> \<open>EvErrh e\<close>: the registered error handler \<^verbatim>\<open>errh\<close> called.
\<close>

datatype event =
    EvAccept int
  | EvSetBlocking int
  | EvClose int
  | EvPoll int int
  | EvRead int nat int nat
  | EvWrite int "u8 list" int
  | EvSleep u32
  | EvRh auframe
  | EvWh auframe
  | EvErrh int

text \<open>
  The module-level state: \<^verbatim>\<open>client_fd\<close> (the connection slot, \<open>-1\<close> when empty) and
  the trace. \<open>backlog\<close> is the environment: the values the next calls of
  \<^verbatim>\<open>accept(listen_fd, ...)\<close> return, in order; with nothing pending the non-blocking
  listening socket makes \<^verbatim>\<open>accept\<close> return \<open>-1\<close>.
\<close>

record world =
  client_fd :: int
  backlog :: "int list"
  trace :: "event list"

definition emit :: "event \<Rightarrow> world \<Rightarrow> world" where
  "emit e w = w\<lparr> trace := trace w @ [e] \<rparr>"

definition sys_accept :: "world \<Rightarrow> int \<times> world" where
  "sys_accept w =
     (case backlog w of
        [] \<Rightarrow> (-1, emit (EvAccept (-1)) w)
      | a # rest \<Rightarrow> (a, emit (EvAccept a) (w\<lparr> backlog := rest \<rparr>)))"

subsection \<open>Socket helpers\<close>

text \<open>
  The second critical section of \<^verbatim>\<open>get_client\<close> (lines 134 to 142): under the lock,
  either another thread has filled the slot in the meantime, and the freshly accepted
  descriptor is closed, or the descriptor is stored.
\<close>

definition gc_install :: "int \<Rightarrow> world \<Rightarrow> int \<times> world" where
  "gc_install fd w =
     (if client_fd w \<ge> 0 then (client_fd w, emit (EvClose fd) w)
      else (fd, w\<lparr> client_fd := fd \<rparr>))"

text \<open>The part of \<^verbatim>\<open>get_client\<close> after the first critical section (lines 115 to 144).\<close>

definition gc_after_peek :: "int \<Rightarrow> world \<Rightarrow> int \<times> world" where
  "gc_after_peek fd w =
     (if fd \<ge> 0 then (fd, w)
      else
        case sys_accept w of (a, w1) \<Rightarrow>
          if a < 0 then (-1, w1)
          else gc_install a (emit (EvSetBlocking a) w1))"

text \<open>\<^verbatim>\<open>get_client\<close> run by one thread with no other thread in between.\<close>

definition get_client :: "world \<Rightarrow> int \<times> world" where
  "get_client w = gc_after_peek (client_fd w) w"

definition drop_client :: "int \<Rightarrow> world \<Rightarrow> world" where
  "drop_client fd w =
     (if client_fd w = fd then (emit (EvClose fd) w)\<lparr> client_fd := -1 \<rparr> else w)"

section \<open>Clock discipline\<close>

text \<open>
  \<^verbatim>\<open>const uint64_t ptime_us = st->ptime * 1000\<close>: the product is formed in 32 bits and
  then widened.
\<close>

definition ptime_us :: "u32 \<Rightarrow> u64" where
  "ptime_us pt = ucast (pt * 1000)"

text \<open>
  The pacing block shared by both loops (lines 229 to 234 and 334 to 339). \<open>now\<close> is the
  value \<^verbatim>\<open>clock_us()\<close> returns there. The result is the new cursor.
\<close>

definition pace :: "u64 \<Rightarrow> u64 \<Rightarrow> u64 \<Rightarrow> world \<Rightarrow> u64 \<times> world" where
  "pace next_frame p_us now w =
     (let nf = next_frame + p_us
      in if nf > now then (nf, emit (EvSleep (ucast (nf - now))) w)
         else (now, w))"

text \<open>
  The timeout handed to \<^verbatim>\<open>poll\<close> (lines 197 to 200), an \<^verbatim>\<open>int\<close> in milliseconds. The
  cast from \<^verbatim>\<open>uint64_t\<close> keeps the low 32 bits, read as two's complement.
\<close>

definition poll_timeout_ms :: "u64 \<Rightarrow> u64 \<Rightarrow> int" where
  "poll_timeout_ms next_frame now =
     (if next_frame > now then sint (ucast ((next_frame - now) div 1000) :: 32 word) else 0)"

definition POLLIN :: u16 where
  "POLLIN = 1"

section \<open>The inbound loop\<close>

text \<open>
  \<^verbatim>\<open>const size_t nbytes = st->sampc * sizeof(int16_t)\<close>, with a 64-bit \<^verbatim>\<open>size_t\<close>.
\<close>

definition nbytes_of :: "u32 \<Rightarrow> nat" where
  "nbytes_of sc = unat ((ucast sc :: u64) * 2)"

text \<open>
  \<^verbatim>\<open>memset(buf + off, 0, n)\<close> and the copy a successful \<^verbatim>\<open>read\<close> makes into
  \<^verbatim>\<open>buf + off\<close>, on the frame buffer as a list of bytes.
\<close>

definition memset0 :: "nat \<Rightarrow> nat \<Rightarrow> u8 list \<Rightarrow> u8 list" where
  "memset0 off n buf = take off buf @ replicate n 0 @ drop (off + n) buf"

definition store_at :: "nat \<Rightarrow> u8 list \<Rightarrow> u8 list \<Rightarrow> u8 list" where
  "store_at off bs buf = take off buf @ bs @ drop (off + length bs) buf"

text \<open>
  What the peer's side of the socket has for one call of \<^verbatim>\<open>read\<close>: an error, or the
  bytes queued (none queued with the peer gone is end of file). \<^verbatim>\<open>read\<close> hands over at
  most \<open>cnt\<close> of them and returns how many.
\<close>

datatype rd_outcome = RdFail | RdData "u8 list"

fun sys_read :: "rd_outcome \<Rightarrow> nat \<Rightarrow> int \<times> u8 list" where
  "sys_read RdFail cnt = (-1, [])"
| "sys_read (RdData bs) cnt = (int (length (take cnt bs)), take cnt bs)"

text \<open>
  The environment of one inbound iteration: the two clock readings, what \<^verbatim>\<open>poll\<close>
  returns and reports in \<^verbatim>\<open>revents\<close>, and for the \<open>k\<close>-th \<^verbatim>\<open>read\<close> of the iteration its
  outcome and the time in microseconds the call stayed blocked before returning (the
  data socket is in blocking mode). Every system call is taken to return eventually.
\<close>

record src_env =
  now_poll :: u64
  poll_ret :: int
  poll_revents :: u16
  reads :: "nat \<Rightarrow> rd_outcome"
  read_us :: "nat \<Rightarrow> nat"
  now_pace :: u64

text \<open>The inner loop \<^verbatim>\<open>while (off < nbytes)\<close> of \<^verbatim>\<open>src_thread\<close> (lines 207 to 218).\<close>

function read_loop ::
  "int \<Rightarrow> nat \<Rightarrow> src_env \<Rightarrow> nat \<Rightarrow> nat \<Rightarrow> u8 list \<Rightarrow> world \<Rightarrow> u8 list \<times> world" where
  "read_loop fd nbytes env k off buf w =
     (if off < nbytes then
        let r = sys_read (reads env k) (nbytes - off);
            w1 = emit (EvRead fd (nbytes - off) (fst r) (read_us env k)) w
        in if fst r \<le> 0
           then (memset0 off (nbytes - off) buf, drop_client fd w1)
           else read_loop fd nbytes env (Suc k) (off + nat (fst r)) (store_at off (snd r) buf) w1
      else (buf, w))"
  by pat_completeness auto
termination
  by (relation "measure (\<lambda>(fd, nbytes, env, k, off, buf, w). nbytes - off)") auto

declare read_loop.simps [simp del]

text \<open>
  One pass through the body of \<^verbatim>\<open>while (st->run)\<close> in \<^verbatim>\<open>src_thread\<close>. The loop state is
  the cursor \<^verbatim>\<open>next_frame\<close>, the frame buffer and the world.
\<close>

definition src_iter ::
  "ausrc_st \<Rightarrow> src_env \<Rightarrow> u64 \<times> u8 list \<times> world \<Rightarrow> u64 \<times> u8 list \<times> world" where
  "src_iter st env s =
     (case s of (next_frame, buf, w) \<Rightarrow>
        let nbytes = nbytes_of (ausrc_st.sampc st);
            (fd, w1) = get_client w;
            (buf2, w2) =
              (if fd \<ge> 0 then
                 let timeout_ms = poll_timeout_ms next_frame (now_poll env);
                     wp = emit (EvPoll fd timeout_ms) w1
                 in if poll_ret env > 0 \<and> poll_revents env AND POLLIN \<noteq> 0
                    then read_loop fd nbytes env 0 0 buf wp
                    else (memset0 0 nbytes buf, wp)
               else (memset0 0 nbytes buf, w1));
            (nf, w3) = pace next_frame (ptime_us (ausrc_st.ptime st)) (now_pace env) w2;
            af = auframe_init AUFMT_S16LE buf2 (ausrc_st.sampc st) (ausrc_st.srate st) 1
        in (nf, buf2, emit (EvRh af) w3))"

text \<open>
  \<^verbatim>\<open>src_thread\<close>: the buffer comes zeroed from \<^verbatim>\<open>mem_zalloc\<close> (or the thread gives up),
  the cursor starts at the first clock reading, and the body runs once for each time the
  thread finds \<^verbatim>\<open>st->run\<close> set; the list holds the environment of each of these passes.
\<close>

datatype thrd_result = thrd_success | thrd_error

fun src_loop :: "ausrc_st \<Rightarrow> src_env list \<Rightarrow> u64 \<times> u8 list \<times> world \<Rightarrow> u64 \<times> u8 list \<times> world" where
  "src_loop st [] s = s"
| "src_loop st (env # envs) s = src_loop st envs (src_iter st env s)"

definition src_thread ::
  "ausrc_st \<Rightarrow> bool \<Rightarrow> u64 \<Rightarrow> src_env list \<Rightarrow> world \<Rightarrow> thrd_result \<times> world" where
  "src_thread st mem_ok now0 envs w =
     (if \<not> mem_ok then (thrd_error, w)
      else
        let buf = replicate (nbytes_of (ausrc_st.sampc st)) 0
        in case src_loop st envs (now0, buf, w) of (nf, buf', w') \<Rightarrow> (thrd_success, w'))"

section \<open>The outbound loop\<close>

text \<open>
  The environment of one outbound iteration: what the host's \<^verbatim>\<open>wh\<close> leaves in the
  buffer it is given, the value the kernel has for the \<open>k\<close>-th \<^verbatim>\<open>write\<close> (never more
  than the count asked for), and the clock reading of the pacing block.
\<close>

record play_env =
  wh_fill :: "u8 list \<Rightarrow> u8 list"
  writes :: "nat \<Rightarrow> int"
  now_pace :: u64

definition sys_write :: "int \<Rightarrow> nat \<Rightarrow> int" where
  "sys_write r cnt = min r (int cnt)"

text \<open>The inner loop \<^verbatim>\<open>while (off < nbytes)\<close> of \<^verbatim>\<open>play_thread\<close> (lines 321 to 330).\<close>

function write_loop ::
  "int \<Rightarrow> nat \<Rightarrow> play_env \<Rightarrow> nat \<Rightarrow> nat \<Rightarrow> u8 list \<Rightarrow> world \<Rightarrow> world" where
  "write_loop fd nbytes env k off buf w =
     (if off < nbytes then
        let n = sys_write (writes env k) (nbytes - off);
            w1 = emit (EvWrite fd (take (nbytes - off) (drop off buf)) n) w
        in if n \<le> 0
           then drop_client fd w1
           else write_loop fd nbytes env (Suc k) (off + nat n) buf w1
      else w)"
  by pat_completeness auto
termination
  by (relation "measure (\<lambda>(fd, nbytes, env, k, off, buf, w). nbytes - off)") auto

declare write_loop.simps [simp del]

definition play_iter ::
  "auplay_st \<Rightarrow> play_env \<Rightarrow> u64 \<times> u8 list \<times> world \<Rightarrow> u64 \<times> u8 list \<times> world" where
  "play_iter st env s =
     (case s of (next_frame, buf, w) \<Rightarrow>
        let nbytes = nbytes_of (auplay_st.sampc st);
            buf1 = wh_fill env buf;
            af = auframe_init AUFMT_S16LE buf1 (auplay_st.sampc st) (auplay_st.srate st) 1;
            w0 = emit (EvWh af) w;
            (fd, w1) = get_client w0;
            w2 = (if fd \<ge> 0 then write_loop fd nbytes env 0 0 buf1 w1 else w1);
            (nf, w3) = pace next_frame (ptime_us (auplay_st.ptime st)) (play_env.now_pace env) w2
        in (nf, buf1, w3))"

fun play_loop :: "auplay_st \<Rightarrow> play_env list \<Rightarrow> u64 \<times> u8 list \<times> world \<Rightarrow> u64 \<times> u8 list \<times> world" where
  "play_loop st [] s = s"
| "play_loop st (env # envs) s = play_loop st envs (play_iter st env s)"

definition play_thread ::
  "auplay_st \<Rightarrow> bool \<Rightarrow> u64 \<Rightarrow> play_env list \<Rightarrow> world \<Rightarrow> thrd_result \<times> world" where
  "play_thread st mem_ok now0 envs w =
     (if \<not> mem_ok then (thrd_error, w)
      else
        let buf = replicate (nbytes_of (auplay_st.sampc st)) 0
        in case play_loop st envs (now0, buf, w) of (nf, buf', w') \<Rightarrow> (thrd_success, w'))"

section \<open>Reading the trace\<close>

fun is_rh :: "event \<Rightarrow> bool" where
  "is_rh (EvRh af) = True"
| "is_rh _ = False"

fun is_wh :: "event \<Rightarrow> bool" where
  "is_wh (EvWh af) = True"
| "is_wh _ = False"

fun is_errh :: "event \<Rightarrow> bool" where
  "is_errh (EvErrh e) = True"
| "is_errh _ = False"

fun is_poll :: "event \<Rightarrow> bool" where
  "is_poll (EvPoll fd t) = True"
| "is_poll _ = False"

fun is_write :: "event \<Rightarrow> bool" where
  "is_write (EvWrite fd bs n) = True"
| "is_write _ = False"

fun is_failed_write :: "event \<Rightarrow> bool" where
  "is_failed_write (EvWrite fd bs n) = (n \<le> 0)"
| "is_failed_write _ = False"

text \<open>The descriptors closed, in order, and the bytes the kernel took from \<^verbatim>\<open>write\<close>.\<close>

fun closed_fds :: "event list \<Rightarrow> int list" where
  "closed_fds [] = []"
| "closed_fds (EvClose fd # es) = fd # closed_fds es"
| "closed_fds (e # es) = closed_fds es"

fun sent_bytes :: "event list \<Rightarrow> u8 list" where
  "sent_bytes [] = []"
| "sent_bytes (EvWrite fd bs n # es) = take (nat n) bs @ sent_bytes es"
| "sent_bytes (e # es) = sent_bytes es"

text \<open>The time spent inside \<^verbatim>\<open>read\<close> calls, in microseconds.\<close>

fun read_blocked_us :: "event list \<Rightarrow> nat" where
  "read_blocked_us [] = 0"
| "read_blocked_us (EvRead fd cnt n us # es) = us + read_blocked_us es"
| "read_blocked_us (e # es) = read_blocked_us es"

section \<open>Two threads on the connection slot\<close>

text \<open>
  Both loops call \<^verbatim>\<open>get_client\<close> and \<^verbatim>\<open>drop_client\<close> on the same slot. The mutex makes
  each locked region one indivisible step, \<^verbatim>\<open>accept\<close> is one system call, and everything
  else a call does is local to its thread. A thread inside one of the two functions is
  therefore at one of these points:
  \<^item> \<open>GcStart\<close>: \<^verbatim>\<open>get_client\<close> entered, nothing done;
  \<^item> \<open>GcPeeked fd\<close>: the first locked region (lines 111 to 113) has read \<open>fd\<close>;
  \<^item> \<open>GcAccepted a\<close>: \<^verbatim>\<open>accept\<close> has returned \<open>a \<ge> 0\<close>, now in blocking mode;
  \<^item> \<open>GcLeave r\<close>: the second locked region (lines 134 to 142) is left, \<open>r\<close> is in \<^verbatim>\<open>fd\<close>;
  \<^item> \<open>GcRet r\<close>: \<^verbatim>\<open>get_client\<close> has returned \<open>r\<close>;
  \<^item> \<open>DropStart fd\<close>: \<^verbatim>\<open>drop_client(fd)\<close> entered; \<open>DropRet\<close>: it has returned.
\<close>

datatype pc =
    GcStart
  | GcPeeked int
  | GcAccepted int
  | GcLeave int
  | GcRet int
  | DropStart int
  | DropRet

fun thr_step :: "pc \<Rightarrow> world \<Rightarrow> pc \<times> world" where
  "thr_step GcStart w = (GcPeeked (client_fd w), w)"
| "thr_step (GcPeeked fd) w =
     (if fd \<ge> 0 then (GcRet fd, w)
      else
        case sys_accept w of (a, w1) \<Rightarrow>
          if a < 0 then (GcRet (-1), w1)
          else (GcAccepted a, emit (EvSetBlocking a) w1))"
| "thr_step (GcAccepted a) w = (case gc_install a w of (r, w1) \<Rightarrow> (GcLeave r, w1))"
| "thr_step (GcLeave r) w = (GcRet r, w)"
| "thr_step (GcRet r) w = (GcRet r, w)"
| "thr_step (DropStart fd) w = (DropRet, drop_client fd w)"
| "thr_step DropRet w = (DropRet, w)"

datatype tid = SrcT | PlayT

record conc =
  shared :: world
  t_src :: pc
  t_play :: pc

fun conc_step :: "tid \<Rightarrow> conc \<Rightarrow> conc" where
  "conc_step SrcT c =
     (case thr_step (t_src c) (shared c) of (p, w) \<Rightarrow> c\<lparr> shared := w, t_src := p \<rparr>)"
| "conc_step PlayT c =
     (case thr_step (t_play c) (shared c) of (p, w) \<Rightarrow> c\<lparr> shared := w, t_play := p \<rparr>)"

text \<open>A schedule names the thread that takes the next step.\<close>

fun run_sched :: "tid list \<Rightarrow> conc \<Rightarrow> conc" where
  "run_sched [] c = c"
| "run_sched (t # ts) c = run_sched ts (conc_step t c)"

text \<open>
  Where a descriptor taken from the backlog can be: in the hands of a thread between
  \<^verbatim>\<open>accept\<close> and the second locked region, or in the slot.
\<close>

fun in_flight :: "pc \<Rightarrow> int list" where
  "in_flight (GcAccepted a) = [a]"
| "in_flight _ = []"

definition held :: "world \<Rightarrow> int list" where
  "held w = (if client_fd w \<ge> 0 then [client_fd w] else [])"

text \<open>Whether a thread may have taken a connection from the backlog.\<close>

fun took :: "pc \<Rightarrow> nat" where
  "took (GcAccepted a) = 1"
| "took (GcLeave r) = (if r \<ge> 0 then 1 else 0)"
| "took (GcRet r) = (if r \<ge> 0 then 1 else 0)"
| "took _ = 0"

fun in_get_client :: "pc \<Rightarrow> bool" where
  "in_get_client (DropStart fd) = False"
| "in_get_client DropRet = False"
| "in_get_client _ = True"

text \<open>The frames handed to \<^verbatim>\<open>rh\<close> and pulled through \<^verbatim>\<open>wh\<close>, in order.\<close>

fun rh_frames :: "event list \<Rightarrow> auframe list" where
  "rh_frames [] = []"
| "rh_frames (EvRh af # es) = af # rh_frames es"
| "rh_frames (e # es) = rh_frames es"

fun wh_frames :: "event list \<Rightarrow> auframe list" where
  "wh_frames [] = []"
| "wh_frames (EvWh af # es) = af # wh_frames es"
| "wh_frames (e # es) = wh_frames es"

text \<open>The timeouts handed to \<^verbatim>\<open>poll\<close>, in order, with the descriptor polled.\<close>

fun polls :: "event list \<Rightarrow> (int \<times> int) list" where
  "polls [] = []"
| "polls (EvPoll fd t # es) = (fd, t) # polls es"
| "polls (e # es) = polls es"





text \<open>
  The time left until the deadline \<^verbatim>\<open>next_frame\<close> at clock reading \<open>now\<close>, in
  microseconds; nothing is left once the deadline has passed.
\<close>

definition remaining_us :: "u64 \<Rightarrow> u64 \<Rightarrow> nat" where
  "remaining_us next_frame now = (if now < next_frame then unat (next_frame - now) else 0)"

fun is_close :: "event \<Rightarrow> bool" where
  "is_close (EvClose fd) = True"
| "is_close _ = False"


text \<open>
  What a thread inside \<^verbatim>\<open>get_client\<close> knows about the slot: a value read or returned
  is either "none" or what the slot holds now. (With only \<^verbatim>\<open>get_client\<close> running the
  slot, once filled, is never changed.)
\<close>

fun pc_ok :: "world \<Rightarrow> pc \<Rightarrow> bool" where
  "pc_ok w GcStart = True"
| "pc_ok w (GcPeeked f) = (f < 0 \<or> f = client_fd w)"
| "pc_ok w (GcAccepted a) = (0 \<le> a)"
| "pc_ok w (GcLeave r) = (0 \<le> r \<and> r = client_fd w)"
| "pc_ok w (GcRet r) = (r = -1 \<or> (0 \<le> r \<and> r = client_fd w))"
| "pc_ok w (DropStart fd) = False"
| "pc_ok w DropRet = False"

text \<open>
  The invariant of two threads inside \<^verbatim>\<open>get_client\<close>, started in world \<open>w0\<close>: the
  descriptors taken from the backlog so far, with the one the slot held at the start,
  are exactly those in flight, in the slot, or closed since; nothing is closed while
  the slot is empty; and no more connections are taken than threads can have taken.
\<close>

definition slot_inv :: "world \<Rightarrow> world \<Rightarrow> pc \<Rightarrow> pc \<Rightarrow> bool" where
  "slot_inv w0 w p q =
     ((\<exists>taken nc.
         backlog w0 = taken @ backlog w \<and>
         closed_fds (trace w) = closed_fds (trace w0) @ nc \<and>
         mset (held w0 @ taken) = mset (in_flight p @ in_flight q @ held w @ nc) \<and>
         (client_fd w < 0 \<longrightarrow> nc = []) \<and>
         length taken \<le> took p + took q) \<and>
      pc_ok w p \<and> pc_ok w q)"

text \<open>The descriptors closed since the world was \<open>w0\<close>.\<close>

definition closed_since :: "world \<Rightarrow> world \<Rightarrow> int list" where
  "closed_since w0 w = drop (length (closed_fds (trace w0))) (closed_fds (trace w))"

section \<open>Concrete inputs\<close>

text \<open>
  A session at 8000 Hz with 20 ms frames, a session whose frame period is 90 s at
  48000 Hz, and a small session (100 Hz, 20 ms, two samples per frame) with its
  environments, used to run the definitions.
\<close>

definition prm_8k :: au_prm where
  "prm_8k = \<lparr> au_prm.srate = 8000, au_prm.ch = 1, au_prm.ptime = 20 \<rparr>"

definition prm_90s :: au_prm where
  "prm_90s = \<lparr> au_prm.srate = 48000, au_prm.ch = 1, au_prm.ptime = 90000 \<rparr>"

definition src_st2 :: ausrc_st where
  "src_st2 = \<lparr> ausrc_st.run = True, ausrc_st.ptime = 20, ausrc_st.sampc = 2,
               ausrc_st.srate = 100 \<rparr>"

definition play_st2 :: auplay_st where
  "play_st2 = \<lparr> auplay_st.run = True, auplay_st.ptime = 20, auplay_st.sampc = 2,
                auplay_st.srate = 100 \<rparr>"

definition w_empty :: world where
  "w_empty = \<lparr> client_fd = -1, backlog = [], trace = [] \<rparr>"

definition w_peer :: world where
  "w_peer = \<lparr> client_fd = 5, backlog = [], trace = [] \<rparr>"

definition w_two_pending :: world where
  "w_two_pending = \<lparr> client_fd = -1, backlog = [7, 8], trace = [] \<rparr>"

text \<open>
  Inbound environments: a full frame arrives in two pieces; the wait times out; one byte
  arrives and the next \<^verbatim>\<open>read\<close> returns only after a minute, with end of file.
\<close>

definition env_full :: src_env where
  "env_full = \<lparr> src_env.now_poll = 1000, poll_ret = 1, poll_revents = 1,
                 reads = (\<lambda>k. if k = 0 then RdData [1] else RdData [2, 3, 4, 5]),
                 read_us = (\<lambda>k. 0), src_env.now_pace = 1500 \<rparr>"

definition env_timeout :: src_env where
  "env_timeout = \<lparr> src_env.now_poll = 1000, poll_ret = 0, poll_revents = 0,
                    reads = (\<lambda>k. RdFail), read_us = (\<lambda>k. 0), src_env.now_pace = 50000 \<rparr>"

definition env_stall :: src_env where
  "env_stall = \<lparr> src_env.now_poll = 1000, poll_ret = 1, poll_revents = 1,
                  reads = (\<lambda>k. if k = 0 then RdData [1] else RdData []),
                  read_us = (\<lambda>k. if k = 0 then 0 else 60000000),
                  src_env.now_pace = 60001000 \<rparr>"

text \<open>
  Outbound environments: the kernel takes the frame in two pieces; the second
  \<^verbatim>\<open>write\<close> fails.
\<close>

definition penv_ok :: play_env where
  "penv_ok = \<lparr> wh_fill = (\<lambda>b. [1, 2, 3, 4]), writes = (\<lambda>k. if k = 0 then 3 else 1),
                play_env.now_pace = 1500 \<rparr>"

definition penv_fail :: play_env where
  "penv_fail = \<lparr> wh_fill = (\<lambda>b. [6, 7, 8, 9]), writes = (\<lambda>k. if k = 0 then 3 else -1),
                  play_env.now_pace = 50000 \<rparr>"

section \<open>Basic facts about the trace\<close>

lemma trace_emit [simp]: "trace (emit e w) = trace w @ [e]"
  by (simp add: emit_def)

lemma client_fd_emit [simp]: "client_fd (emit e w) = client_fd w"
  by (simp add: emit_def)

lemma backlog_emit [simp]: "backlog (emit e w) = backlog w"
  by (simp add: emit_def)

lemma filter_drop_client:
  "\<not> P (EvClose fd) \<Longrightarrow> filter P (trace (drop_client fd w)) = filter P (trace w)"
  by (simp add: drop_client_def)

lemma filter_get_client:
  assumes "\<And>a. \<not> P (EvAccept a)" "\<And>a. \<not> P (EvSetBlocking a)" "\<And>a. \<not> P (EvClose a)"
  shows "filter P (trace (snd (get_client w))) = filter P (trace w)"
  using assms
  by (simp add: get_client_def gc_after_peek_def gc_install_def sys_accept_def
      split: list.splits prod.splits)

lemma filter_pace:
  assumes "\<And>d. \<not> P (EvSleep d)"
  shows "filter P (trace (snd (pace nf p now w))) = filter P (trace w)"
  using assms by (simp add: pace_def Let_def)

lemma filter_read_loop:
  assumes "\<And>c n us. \<not> P (EvRead fd c n us)" "\<not> P (EvClose fd)"
  shows "filter P (trace (snd (read_loop fd nbytes env k off buf w))) = filter P (trace w)"
  using assms
proof (induction fd nbytes env k off buf w rule: read_loop.induct)
  case (1 fd nbytes env k off buf w)
  show ?case
  proof (cases "off < nbytes")
    case False
    then show ?thesis by (subst read_loop.simps) simp
  next
    case True
    show ?thesis
    proof (cases "fst (sys_read (reads env k) (nbytes - off)) \<le> 0")
      case fail: True
      with True "1.prems" show ?thesis
        by (subst read_loop.simps) (simp add: Let_def filter_drop_client)
    next
      case ok: False
      with True "1.prems" "1.IH" [OF True refl refl ok] show ?thesis
        by (subst read_loop.simps) (simp add: Let_def)
    qed
  qed
qed

lemma filter_write_loop:
  assumes "\<And>bs n. \<not> P (EvWrite fd bs n)" "\<not> P (EvClose fd)"
  shows "filter P (trace (write_loop fd nbytes env k off buf w)) = filter P (trace w)"
  using assms
proof (induction fd nbytes env k off buf w rule: write_loop.induct)
  case (1 fd nbytes env k off buf w)
  show ?case
  proof (cases "off < nbytes")
    case False
    then show ?thesis by (subst write_loop.simps) simp
  next
    case True
    show ?thesis
    proof (cases "sys_write (writes env k) (nbytes - off) \<le> 0")
      case fail: True
      with True "1.prems" show ?thesis
        by (subst write_loop.simps) (simp add: Let_def filter_drop_client)
    next
      case ok: False
      with True "1.prems" "1.IH" [OF True refl refl ok] show ?thesis
        by (subst write_loop.simps) (simp add: Let_def)
    qed
  qed
qed

section \<open>Allocation\<close>

lemma sampc_exact:
  fixes sr pt :: u32
  assumes "unat sr * unat pt < 2 ^ 32"
  shows "unat (sr * 1 * pt div 1000) = unat sr * unat pt div 1000"
proof -
  have "unat (sr * pt) = unat sr * unat pt"
    using assms by (simp add: unat_word_ariths)
  then show ?thesis by (simp add: unat_div)
qed

lemma sampc_wrapped:
  fixes sr c pt :: u32
  shows "unat (sr * c * pt div 1000) = (unat sr * unat c * unat pt) mod 2 ^ 32 div 1000"
  by (simp add: unat_div unat_word_ariths mod_mult_left_eq)

lemma src_alloc_Inr:
  "src_alloc prm m t = Inr st \<Longrightarrow>
     st = \<lparr> ausrc_st.run = True, ausrc_st.ptime = au_prm.ptime prm,
            ausrc_st.sampc = au_prm.srate prm * au_prm.ch prm * au_prm.ptime prm div 1000,
            ausrc_st.srate = au_prm.srate prm \<rparr>"
  by (auto simp: src_alloc_def Let_def split: if_splits)

lemma play_alloc_Inr:
  "play_alloc prm m t = Inr st \<Longrightarrow>
     st = \<lparr> auplay_st.run = True, auplay_st.ptime = au_prm.ptime prm,
            auplay_st.sampc = au_prm.srate prm * au_prm.ch prm * au_prm.ptime prm div 1000,
            auplay_st.srate = au_prm.srate prm \<rparr>"
  by (auto simp: play_alloc_def Let_def split: if_splits)

section \<open>Clock\<close>



lemma poll_timeout_value:
  assumes "unat (nf - now) div 1000 < 2 ^ 31"
  shows "poll_timeout_ms nf now = (if now < nf then int (unat (nf - now) div 1000) else 0)"
proof (cases "now < nf")
  case False
  then show ?thesis by (simp add: poll_timeout_ms_def)
next
  case True
  let ?q = "(nf - now) div 1000"
  have q: "unat ?q = unat (nf - now) div 1000" by (simp add: unat_div)
  have lt: "uint ?q < 2 ^ 31"
    using assms q by (simp add: uint_nat)
  have "sint (ucast ?q :: 32 word) = signed_take_bit 31 (uint ?q)"
    by (simp add: signed_ucast_eq)
  also have "\<dots> = uint ?q"
  proof (rule signed_take_bit_int_eq_self)
    show "- (2 ^ 31) \<le> uint ?q"
    proof -
      have "- (2 ^ 31) \<le> (0::int)" by simp
      also have "0 \<le> uint ?q" by (rule uint_nonnegative)
      finally show ?thesis .
    qed
    show "uint ?q < 2 ^ 31" by (rule lt)
  qed
  finally have "sint (ucast ?q :: 32 word) = int (unat (nf - now) div 1000)"
    using q by (simp add: uint_nat)
  then show ?thesis using True by (simp add: poll_timeout_ms_def)
qed

section \<open>One pass of each loop\<close>














section \<open>Projections of the trace\<close>

lemma rh_frames_append [simp]: "rh_frames (a @ b) = rh_frames a @ rh_frames b"
  by (induction a rule: rh_frames.induct) simp_all

lemma wh_frames_append [simp]: "wh_frames (a @ b) = wh_frames a @ wh_frames b"
  by (induction a rule: wh_frames.induct) simp_all

lemma polls_append [simp]: "polls (a @ b) = polls a @ polls b"
  by (induction a rule: polls.induct) simp_all

lemma closed_fds_append [simp]: "closed_fds (a @ b) = closed_fds a @ closed_fds b"
  by (induction a rule: closed_fds.induct) simp_all

lemma sent_bytes_append [simp]: "sent_bytes (a @ b) = sent_bytes a @ sent_bytes b"
  by (induction a rule: sent_bytes.induct) simp_all

lemma read_blocked_us_append [simp]:
  "read_blocked_us (a @ b) = read_blocked_us a + read_blocked_us b"
  by (induction a rule: read_blocked_us.induct) simp_all

lemma rh_frames_filter: "rh_frames (filter is_rh tr) = rh_frames tr"
  by (induction tr rule: rh_frames.induct) simp_all

lemma wh_frames_filter: "wh_frames (filter is_wh tr) = wh_frames tr"
  by (induction tr rule: wh_frames.induct) simp_all

lemma polls_filter: "polls (filter is_poll tr) = polls tr"
  by (induction tr rule: polls.induct) simp_all

lemma closed_fds_filter: "closed_fds (filter is_close tr) = closed_fds tr"
  by (induction tr rule: closed_fds.induct) simp_all

lemma sent_bytes_filter: "sent_bytes (filter is_write tr) = sent_bytes tr"
  by (induction tr rule: sent_bytes.induct) simp_all

lemma rh_frames_cong: "filter is_rh a = filter is_rh b \<Longrightarrow> rh_frames a = rh_frames b"
  by (metis rh_frames_filter)

lemma wh_frames_cong: "filter is_wh a = filter is_wh b \<Longrightarrow> wh_frames a = wh_frames b"
  by (metis wh_frames_filter)

lemma polls_cong: "filter is_poll a = filter is_poll b \<Longrightarrow> polls a = polls b"
  by (metis polls_filter)

lemma closed_fds_cong: "filter is_close a = filter is_close b \<Longrightarrow> closed_fds a = closed_fds b"
  by (metis closed_fds_filter)

lemma sent_bytes_cong: "filter is_write a = filter is_write b \<Longrightarrow> sent_bytes a = sent_bytes b"
  by (metis sent_bytes_filter)

section \<open>The events of one inbound pass\<close>

lemma filter_src_iter:
  assumes "\<And>a. \<not> P (EvAccept a)" "\<And>a. \<not> P (EvSetBlocking a)" "\<And>a. \<not> P (EvClose a)"
    "\<And>fd c n us. \<not> P (EvRead fd c n us)" "\<And>d. \<not> P (EvSleep d)"
  shows "filter P (trace (snd (snd (src_iter st env (nf, buf, w))))) =
     filter P (trace w) @
     filter P ((if 0 \<le> fst (get_client w)
                then [EvPoll (fst (get_client w)) (poll_timeout_ms nf (src_env.now_poll env))]
                else []) @
               [EvRh (auframe_init AUFMT_S16LE (fst (snd (src_iter st env (nf, buf, w))))
                        (ausrc_st.sampc st) (ausrc_st.srate st) 1)])"
  using assms
  by (simp add: src_iter_def Let_def case_prod_beta filter_pace filter_read_loop
      filter_get_client)

lemma filter_play_iter:
  assumes "\<And>a. \<not> P (EvAccept a)" "\<And>a. \<not> P (EvSetBlocking a)" "\<And>a. \<not> P (EvClose a)"
    "\<And>fd bs n. \<not> P (EvWrite fd bs n)" "\<And>d. \<not> P (EvSleep d)"
  shows "filter P (trace (snd (snd (play_iter st env (nf, buf, w))))) =
     filter P (trace w) @
     filter P [EvWh (auframe_init AUFMT_S16LE (wh_fill env buf)
                        (auplay_st.sampc st) (auplay_st.srate st) 1)]"
  using assms
  by (simp add: play_iter_def Let_def case_prod_beta filter_pace filter_write_loop
      filter_get_client)

section \<open>The trace only grows\<close>

lemma drop_client_ext: "\<exists>evs. trace (drop_client fd w) = trace w @ evs"
  by (simp add: drop_client_def)

lemma get_client_ext: "\<exists>evs. trace (snd (get_client w)) = trace w @ evs"
  by (simp add: get_client_def gc_after_peek_def gc_install_def sys_accept_def
      split: list.splits)

lemma pace_ext: "\<exists>evs. trace (snd (pace nf p now w)) = trace w @ evs"
  by (simp add: pace_def Let_def)

lemma write_loop_ext: "\<exists>evs. trace (write_loop fd nbytes env k off buf w) = trace w @ evs"
proof (induction fd nbytes env k off buf w rule: write_loop.induct)
  case (1 fd nbytes env k off buf w)
  show ?case
  proof (cases "off < nbytes")
    case False
    then show ?thesis by (subst write_loop.simps) simp
  next
    case True
    show ?thesis
    proof (cases "sys_write (writes env k) (nbytes - off) \<le> 0")
      case fail: True
      with True show ?thesis
        by (subst write_loop.simps) (simp add: Let_def drop_client_def)
    next
      case ok: False
      from "1.IH" [OF True refl refl ok] obtain evs where
        "trace (write_loop fd nbytes env (Suc k)
                  (off + nat (sys_write (writes env k) (nbytes - off))) buf
                  (emit (EvWrite fd (take (nbytes - off) (drop off buf))
                           (sys_write (writes env k) (nbytes - off))) w))
         = trace (emit (EvWrite fd (take (nbytes - off) (drop off buf))
                           (sys_write (writes env k) (nbytes - off))) w) @ evs"
        by blast
      with True ok show ?thesis
        by (subst write_loop.simps) (simp add: Let_def)
    qed
  qed
qed

lemma play_iter_starts_with_wh:
  "\<exists>evs. trace (snd (snd (play_iter st env (nf, buf, w)))) =
     trace w @ EvWh (auframe_init AUFMT_S16LE (wh_fill env buf)
                       (auplay_st.sampc st) (auplay_st.srate st) 1) # evs"
proof -
  let ?af = "auframe_init AUFMT_S16LE (wh_fill env buf) (auplay_st.sampc st) (auplay_st.srate st) 1"
  let ?w0 = "emit (EvWh ?af) w"
  let ?w1 = "snd (get_client ?w0)"
  let ?fd = "fst (get_client ?w0)"
  let ?w2 = "if 0 \<le> ?fd
             then write_loop ?fd (nbytes_of (auplay_st.sampc st)) env 0 0 (wh_fill env buf) ?w1
             else ?w1"
  let ?w3 = "snd (pace nf (ptime_us (auplay_st.ptime st)) (play_env.now_pace env) ?w2)"
  have w3: "snd (snd (play_iter st env (nf, buf, w))) = ?w3"
    by (simp add: play_iter_def Let_def case_prod_beta)
  obtain e1 where e1: "trace ?w1 = trace ?w0 @ e1"
    using get_client_ext by blast
  obtain e2 where e2: "trace ?w2 = trace ?w1 @ e2"
    using write_loop_ext [of ?fd "nbytes_of (auplay_st.sampc st)" env 0 0 "wh_fill env buf" ?w1]
    by (cases "0 \<le> ?fd") auto
  obtain e3 where e3: "trace ?w3 = trace ?w2 @ e3"
    using pace_ext by blast
  have "trace ?w3 = trace w @ EvWh ?af # (e1 @ e2 @ e3)"
    by (simp add: e1 e2 e3)
  with w3 show ?thesis by metis
qed

lemma src_iter_ends_with_rh:
  "\<exists>evs. trace (snd (snd (src_iter st env (nf, buf, w)))) =
     evs @ [EvRh (auframe_init AUFMT_S16LE (fst (snd (src_iter st env (nf, buf, w))))
                    (ausrc_st.sampc st) (ausrc_st.srate st) 1)]"
  by (simp add: src_iter_def Let_def case_prod_beta)

lemma src_iter_rh_count:
  "length (filter is_rh (trace (snd (snd (src_iter st env s))))) =
     Suc (length (filter is_rh (trace (snd (snd s)))))"
proof -
  obtain nf buf w where s: "s = (nf, buf, w)" by (cases s) auto
  show ?thesis unfolding s by (subst filter_src_iter) simp_all
qed

lemma play_iter_wh_count:
  "length (filter is_wh (trace (snd (snd (play_iter st env s))))) =
     Suc (length (filter is_wh (trace (snd (snd s)))))"
proof -
  obtain nf buf w where s: "s = (nf, buf, w)" by (cases s) auto
  show ?thesis unfolding s by (subst filter_play_iter) simp_all
qed

lemma src_loop_rh_count:
  "length (filter is_rh (trace (snd (snd (src_loop st envs s))))) =
     length (filter is_rh (trace (snd (snd s)))) + length envs"
  by (induction envs arbitrary: s) (simp_all add: src_iter_rh_count)

lemma play_loop_wh_count:
  "length (filter is_wh (trace (snd (snd (play_loop st envs s))))) =
     length (filter is_wh (trace (snd (snd s)))) + length envs"
  by (induction envs arbitrary: s) (simp_all add: play_iter_wh_count)

section \<open>The frame buffer keeps its length\<close>

lemma nbytes_of_eq: "nbytes_of sc = 2 * unat sc"
proof -
  have lt: "unat sc < 2 ^ 32" using unsigned_less [of sc, where ?'a = nat] by simp
  then have "unat sc < 2 ^ 64" by simp
  then have u: "unat (ucast sc :: u64) = unat sc"
    by (simp add: unsigned_ucast_eq take_bit_nat_eq_self)
  from lt have "unat sc * 2 < 2 ^ 64" by simp
  with u show ?thesis
    by (simp add: nbytes_of_def unat_word_ariths)
qed

lemma length_memset0:
  "length buf = nbytes \<Longrightarrow> off \<le> nbytes \<Longrightarrow> length (memset0 off (nbytes - off) buf) = nbytes"
  by (simp add: memset0_def)

lemma memset0_whole: "length buf = nbytes \<Longrightarrow> memset0 0 nbytes buf = replicate nbytes 0"
  by (simp add: memset0_def)

lemma length_store_at:
  "length buf = nbytes \<Longrightarrow> off + length bs \<le> nbytes \<Longrightarrow> length (store_at off bs buf) = nbytes"
  by (simp add: store_at_def)

lemma sys_read_length:
  "length (snd (sys_read r cnt)) \<le> cnt \<and> (0 < fst (sys_read r cnt) \<longrightarrow>
     nat (fst (sys_read r cnt)) = length (snd (sys_read r cnt)))"
  by (cases r) simp_all

lemma length_read_loop:
  "length buf = nbytes \<Longrightarrow> off \<le> nbytes \<Longrightarrow>
     length (fst (read_loop fd nbytes env k off buf w)) = nbytes"
proof (induction fd nbytes env k off buf w rule: read_loop.induct)
  case (1 fd nbytes env k off buf w)
  let ?r = "sys_read (reads env k) (nbytes - off)"
  show ?case
  proof (cases "off < nbytes")
    case False
    with "1.prems" show ?thesis by (subst read_loop.simps) simp
  next
    case True
    show ?thesis
    proof (cases "fst ?r \<le> 0")
      case fail: True
      with True "1.prems" show ?thesis
        by (subst read_loop.simps) (simp add: Let_def length_memset0)
    next
      case ok: False
      have len: "length (snd ?r) \<le> nbytes - off" "nat (fst ?r) = length (snd ?r)"
        using sys_read_length [of "reads env k" "nbytes - off"] ok by auto
      have a: "length (store_at off (snd ?r) buf) = nbytes"
        using len True "1.prems" by (intro length_store_at) auto
      have b: "off + nat (fst ?r) \<le> nbytes"
        using len True by simp
      from "1.IH" [OF True refl refl ok a b] True ok show ?thesis
        by (subst read_loop.simps) (simp add: Let_def)
    qed
  qed
qed

lemma src_iter_buf_length:
  "length buf = nbytes_of (ausrc_st.sampc st) \<Longrightarrow>
     length (fst (snd (src_iter st env (nf, buf, w)))) = nbytes_of (ausrc_st.sampc st)"
  using length_memset0 [of buf "nbytes_of (ausrc_st.sampc st)" 0]
  by (simp add: src_iter_def Let_def case_prod_beta length_read_loop)

lemma src_loop_buf_length:
  "length (fst (snd s)) = nbytes_of (ausrc_st.sampc st) \<Longrightarrow>
     length (fst (snd (src_loop st envs s))) = nbytes_of (ausrc_st.sampc st)"
proof (induction envs arbitrary: s)
  case Nil
  then show ?case by simp
next
  case (Cons e envs)
  obtain nf buf w where s: "s = (nf, buf, w)" by (cases s) auto
  with Cons.prems have "length (fst (snd (src_iter st e s))) = nbytes_of (ausrc_st.sampc st)"
    by (simp add: src_iter_buf_length)
  from Cons.IH [OF this] show ?case by simp
qed

lemma samples_of_zero: "samples_of (replicate (2 * n) 0) = replicate n 0"
  by (induction n) simp_all

lemma src_iter_silent_buf:
  assumes "length buf = nbytes_of (ausrc_st.sampc st)"
    and "fst (get_client w) < 0 \<or> \<not> (0 < poll_ret env \<and> poll_revents env AND POLLIN \<noteq> 0)"
  shows "fst (snd (src_iter st env (nf, buf, w))) = replicate (nbytes_of (ausrc_st.sampc st)) 0"
  using assms by (auto simp: src_iter_def Let_def case_prod_beta memset0_whole)

section \<open>The frames of a whole run\<close>

lemma less_next_milli: "(r::nat) < r div 1000 * 1000 + 1000"
proof -
  have "r = r div 1000 * 1000 + r mod 1000" by simp
  moreover have "r mod 1000 < 1000" by simp
  ultimately show ?thesis by linarith
qed

lemma poll_timeout_remaining:
  assumes "remaining_us nf now div 1000 < 2 ^ 31"
  shows "poll_timeout_ms nf now = int (remaining_us nf now div 1000)"
proof (cases "now < nf")
  case True
  with assms have "unat (nf - now) div 1000 < 2 ^ 31" by (simp add: remaining_us_def)
  from poll_timeout_value [OF this] True show ?thesis by (simp add: remaining_us_def)
next
  case False
  then show ?thesis by (simp add: remaining_us_def poll_timeout_ms_def)
qed

lemma src_iter_rh_frames:
  "rh_frames (trace (snd (snd (src_iter st env (nf, buf, w))))) =
     rh_frames (trace w) @
     [auframe_init AUFMT_S16LE (fst (snd (src_iter st env (nf, buf, w))))
        (ausrc_st.sampc st) (ausrc_st.srate st) 1]"
proof -
  have "filter is_rh (trace (snd (snd (src_iter st env (nf, buf, w))))) =
      filter is_rh (trace w @
        [EvRh (auframe_init AUFMT_S16LE (fst (snd (src_iter st env (nf, buf, w))))
                 (ausrc_st.sampc st) (ausrc_st.srate st) 1)])"
    by (subst filter_src_iter) simp_all
  from rh_frames_cong [OF this] show ?thesis by simp
qed

lemma play_iter_wh_frames:
  "wh_frames (trace (snd (snd (play_iter st env (nf, buf, w))))) =
     wh_frames (trace w) @
     [auframe_init AUFMT_S16LE (wh_fill env buf) (auplay_st.sampc st) (auplay_st.srate st) 1]"
proof -
  have "filter is_wh (trace (snd (snd (play_iter st env (nf, buf, w))))) =
      filter is_wh (trace w @
        [EvWh (auframe_init AUFMT_S16LE (wh_fill env buf)
                 (auplay_st.sampc st) (auplay_st.srate st) 1)])"
    by (subst filter_play_iter) simp_all
  from wh_frames_cong [OF this] show ?thesis by simp
qed

lemma src_loop_frames:
  assumes "length (fst (snd s)) = nbytes_of (ausrc_st.sampc st)"
  shows "map auframe.sampc (rh_frames (trace (snd (snd (src_loop st envs s))))) =
           map auframe.sampc (rh_frames (trace (snd (snd s)))) @
           replicate (length envs) (ausrc_st.sampc st) \<and>
         map (\<lambda>af. length (auframe.sampv af)) (rh_frames (trace (snd (snd (src_loop st envs s))))) =
           map (\<lambda>af. length (auframe.sampv af)) (rh_frames (trace (snd (snd s)))) @
           replicate (length envs) (nbytes_of (ausrc_st.sampc st))"
  using assms
proof (induction envs arbitrary: s)
  case Nil
  then show ?case by simp
next
  case (Cons e envs)
  obtain nf buf w where s: "s = (nf, buf, w)" by (cases s) auto
  with Cons.prems have len: "length buf = nbytes_of (ausrc_st.sampc st)" by simp
  have len': "length (fst (snd (src_iter st e s))) = nbytes_of (ausrc_st.sampc st)"
    unfolding s by (rule src_iter_buf_length [OF len])
  from Cons.IH [OF len'] len' show ?case
    by (simp add: s src_iter_rh_frames auframe_init_def replicate_app_Cons_same)
qed

lemma play_loop_frames:
  "map auframe.sampc (wh_frames (trace (snd (snd (play_loop st envs s))))) =
     map auframe.sampc (wh_frames (trace (snd (snd s)))) @
     replicate (length envs) (auplay_st.sampc st)"
proof (induction envs arbitrary: s)
  case Nil
  then show ?case by simp
next
  case (Cons e envs)
  obtain nf buf w where s: "s = (nf, buf, w)" by (cases s) auto
  from Cons.IH [of "play_iter st e s"] show ?case
    by (simp add: s play_iter_wh_frames auframe_init_def replicate_app_Cons_same)
qed

section \<open>The connection slot, one thread at a time\<close>

lemma fst_get_client_emit: "fst (get_client (emit e w)) = fst (get_client w)"
  by (simp add: get_client_def gc_after_peek_def gc_install_def sys_accept_def emit_def
      split: list.splits)

lemma get_client_holds:
  "0 \<le> fst (get_client w) \<Longrightarrow> client_fd (snd (get_client w)) = fst (get_client w)"
  by (auto simp: get_client_def gc_after_peek_def gc_install_def sys_accept_def
      split: list.splits if_splits)

lemma get_client_absent:
  "fst (get_client w) < 0 \<Longrightarrow> client_fd (snd (get_client w)) = client_fd w"
  by (auto simp: get_client_def gc_after_peek_def gc_install_def sys_accept_def
      split: list.splits if_splits)

lemma get_client_no_close:
  "filter is_close (trace (snd (get_client w))) = filter is_close (trace w)"
  by (auto simp: get_client_def gc_after_peek_def gc_install_def sys_accept_def
      split: list.splits if_splits)

lemma client_fd_pace [simp]: "client_fd (snd (pace nf p now w)) = client_fd w"
  by (simp add: pace_def Let_def)

section \<open>The write loop\<close>

lemma write_loop_outcome:
  assumes "client_fd w = fd"
  shows "(filter is_failed_write (trace (write_loop fd nbytes env k off buf w)) =
            filter is_failed_write (trace w) \<and>
          client_fd (write_loop fd nbytes env k off buf w) = fd \<and>
          closed_fds (trace (write_loop fd nbytes env k off buf w)) = closed_fds (trace w)) \<or>
         (length (filter is_failed_write (trace (write_loop fd nbytes env k off buf w))) =
            Suc (length (filter is_failed_write (trace w))) \<and>
          client_fd (write_loop fd nbytes env k off buf w) = -1 \<and>
          closed_fds (trace (write_loop fd nbytes env k off buf w)) = closed_fds (trace w) @ [fd] \<and>
          (\<exists>evs bs n. n \<le> 0 \<and>
             trace (write_loop fd nbytes env k off buf w) = evs @ [EvWrite fd bs n, EvClose fd]))"
  using assms
proof (induction fd nbytes env k off buf w rule: write_loop.induct)
  case (1 fd nbytes env k off buf w)
  let ?n = "sys_write (writes env k) (nbytes - off)"
  let ?w1 = "emit (EvWrite fd (take (nbytes - off) (drop off buf)) ?n) w"
  show ?case
  proof (cases "off < nbytes")
    case False
    with "1.prems" show ?thesis by (subst (1 2 3 4 5 6 7) write_loop.simps) simp
  next
    case True
    show ?thesis
    proof (cases "?n \<le> 0")
      case fail: True
      have W: "write_loop fd nbytes env k off buf w = drop_client fd ?w1"
        using True fail by (subst write_loop.simps) (simp add: Let_def)
      have tr: "trace (drop_client fd ?w1) =
          trace w @ [EvWrite fd (take (nbytes - off) (drop off buf)) ?n, EvClose fd]"
        using "1.prems" by (simp add: drop_client_def)
      have cl: "client_fd (drop_client fd ?w1) = -1"
        using "1.prems" by (simp add: drop_client_def)
      show ?thesis
        unfolding W using fail cl by (intro disjI2) (simp add: tr)
    next
      case ok: False
      have W: "write_loop fd nbytes env k off buf w =
          write_loop fd nbytes env (Suc k) (off + nat ?n) buf ?w1"
        using True ok by (subst write_loop.simps) (simp add: Let_def)
      have "client_fd ?w1 = fd" using "1.prems" by simp
      from "1.IH" [OF True refl refl ok this] ok show ?thesis
        unfolding W by simp
    qed
  qed
qed

lemma sent_bytes_write_loop:
  "\<exists>m. m \<le> nbytes - off \<and>
     sent_bytes (trace (write_loop fd nbytes env k off buf w)) =
       sent_bytes (trace w) @ take m (drop off buf)"
proof (induction fd nbytes env k off buf w rule: write_loop.induct)
  case (1 fd nbytes env k off buf w)
  let ?n = "sys_write (writes env k) (nbytes - off)"
  let ?w1 = "emit (EvWrite fd (take (nbytes - off) (drop off buf)) ?n) w"
  show ?case
  proof (cases "off < nbytes")
    case False
    then have "write_loop fd nbytes env k off buf w = w"
      by (subst write_loop.simps) simp
    then show ?thesis by (intro exI [of _ 0]) simp
  next
    case True
    show ?thesis
    proof (cases "?n \<le> 0")
      case fail: True
      have W: "write_loop fd nbytes env k off buf w = drop_client fd ?w1"
        using True fail by (subst write_loop.simps) (simp add: Let_def)
      have "sent_bytes (trace (drop_client fd ?w1)) = sent_bytes (trace w)"
        using fail by (simp add: drop_client_def)
      then show ?thesis unfolding W by (intro exI [of _ 0]) simp
    next
      case ok: False
      have W: "write_loop fd nbytes env k off buf w =
          write_loop fd nbytes env (Suc k) (off + nat ?n) buf ?w1"
        using True ok by (subst write_loop.simps) (simp add: Let_def)
      have n: "nat ?n \<le> nbytes - off" by (simp add: sys_write_def)
      from "1.IH" [OF True refl refl ok] obtain m where
        m: "m \<le> nbytes - (off + nat ?n)" and
        s: "sent_bytes (trace (write_loop fd nbytes env (Suc k) (off + nat ?n) buf ?w1)) =
              sent_bytes (trace ?w1) @ take m (drop (off + nat ?n) buf)"
        by blast
      have "take (nat ?n) (take (nbytes - off) (drop off buf)) = take (nat ?n) (drop off buf)"
        using n by (simp add: min_def)
      then have "sent_bytes (trace ?w1) = sent_bytes (trace w) @ take (nat ?n) (drop off buf)"
        by simp
      moreover have "take (nat ?n) (drop off buf) @ take m (drop (off + nat ?n) buf) =
          take (nat ?n + m) (drop off buf)"
      proof -
        have "drop (off + nat ?n) buf = drop (nat ?n) (drop off buf)"
          by (simp add: add.commute)
        then show ?thesis by (simp only: take_add)
      qed
      ultimately have "sent_bytes (trace (write_loop fd nbytes env k off buf w)) =
          sent_bytes (trace w) @ take (nat ?n + m) (drop off buf)"
        unfolding W s by simp
      moreover have "nat ?n + m \<le> nbytes - off" using m n True by linarith
      ultimately show ?thesis by blast
    qed
  qed
qed

section \<open>The events of one outbound pass\<close>

lemma play_iter_unfold:
  "snd (snd (play_iter st env (nf, buf, w))) =
     snd (pace nf (ptime_us (auplay_st.ptime st)) (play_env.now_pace env)
       (if 0 \<le> fst (get_client w)
        then write_loop (fst (get_client w)) (nbytes_of (auplay_st.sampc st)) env 0 0
               (wh_fill env buf)
               (snd (get_client (emit (EvWh (auframe_init AUFMT_S16LE (wh_fill env buf)
                  (auplay_st.sampc st) (auplay_st.srate st) 1)) w)))
        else snd (get_client (emit (EvWh (auframe_init AUFMT_S16LE (wh_fill env buf)
                  (auplay_st.sampc st) (auplay_st.srate st) 1)) w))))"
  by (simp add: play_iter_def Let_def case_prod_beta fst_get_client_emit)

lemma closed_fds_pace [simp]: "closed_fds (trace (snd (pace nf p now w))) = closed_fds (trace w)"
  by (simp add: pace_def Let_def)

lemma sent_bytes_pace [simp]: "sent_bytes (trace (snd (pace nf p now w))) = sent_bytes (trace w)"
  by (simp add: pace_def Let_def)

lemma closed_fds_get_client: "closed_fds (trace (snd (get_client w))) = closed_fds (trace w)"
  by (rule closed_fds_cong) (rule get_client_no_close)

lemma sent_bytes_get_client: "sent_bytes (trace (snd (get_client w))) = sent_bytes (trace w)"
  by (rule sent_bytes_cong) (simp add: filter_get_client)

lemma last_write_failed:
  assumes "trace w2 = evs @ [EvWrite fd bs n, EvClose fd]" "n \<le> 0"
  shows "is_failed_write (last (filter is_write (trace (snd (pace nf p now w2)))))"
proof -
  have "filter is_write (trace (snd (pace nf p now w2))) = filter is_write (trace w2)"
    by (simp add: filter_pace)
  also have "\<dots> = filter is_write evs @ [EvWrite fd bs n]"
    by (simp add: assms(1))
  finally show ?thesis using assms(2) by simp
qed

lemma play_iter_no_peer:
  assumes "fst (get_client w) < 0"
  shows "filter is_write (trace (snd (snd (play_iter st env (nf, buf, w))))) =
           filter is_write (trace w) \<and>
         closed_fds (trace (snd (snd (play_iter st env (nf, buf, w))))) = closed_fds (trace w) \<and>
         client_fd (snd (snd (play_iter st env (nf, buf, w)))) = client_fd w"
proof -
  let ?w0 = "emit (EvWh (auframe_init AUFMT_S16LE (wh_fill env buf)
                  (auplay_st.sampc st) (auplay_st.srate st) 1)) w"
  have neg: "fst (get_client ?w0) < 0" using assms by (simp add: fst_get_client_emit)
  have w': "snd (snd (play_iter st env (nf, buf, w))) =
      snd (pace nf (ptime_us (auplay_st.ptime st)) (play_env.now_pace env) (snd (get_client ?w0)))"
    using assms by (simp add: play_iter_unfold)
  have "client_fd (snd (get_client ?w0)) = client_fd w"
    using get_client_absent [OF neg] by simp
  then show ?thesis
    unfolding w' by (simp add: filter_pace filter_get_client closed_fds_get_client)
qed

lemma play_iter_peer:
  assumes "0 \<le> fst (get_client w)"
  shows "(filter is_failed_write (trace (snd (snd (play_iter st env (nf, buf, w))))) =
            filter is_failed_write (trace w) \<and>
          client_fd (snd (snd (play_iter st env (nf, buf, w)))) = fst (get_client w) \<and>
          closed_fds (trace (snd (snd (play_iter st env (nf, buf, w))))) = closed_fds (trace w)) \<or>
         (length (filter is_failed_write (trace (snd (snd (play_iter st env (nf, buf, w)))))) =
            Suc (length (filter is_failed_write (trace w))) \<and>
          client_fd (snd (snd (play_iter st env (nf, buf, w)))) = -1 \<and>
          closed_fds (trace (snd (snd (play_iter st env (nf, buf, w))))) =
            closed_fds (trace w) @ [fst (get_client w)] \<and>
          is_failed_write (last (filter is_write (trace (snd (snd (play_iter st env (nf, buf, w))))))))"
proof -
  let ?w0 = "emit (EvWh (auframe_init AUFMT_S16LE (wh_fill env buf)
                  (auplay_st.sampc st) (auplay_st.srate st) 1)) w"
  let ?fd = "fst (get_client w)"
  let ?w1 = "snd (get_client ?w0)"
  let ?w2 = "write_loop ?fd (nbytes_of (auplay_st.sampc st)) env 0 0 (wh_fill env buf) ?w1"
  let ?p = "ptime_us (auplay_st.ptime st)"
  have fd0: "fst (get_client ?w0) = ?fd" by (rule fst_get_client_emit)
  have w': "snd (snd (play_iter st env (nf, buf, w))) = snd (pace nf ?p (play_env.now_pace env) ?w2)"
    using assms by (simp add: play_iter_unfold)
  have held: "client_fd ?w1 = ?fd"
    using get_client_holds [of ?w0] assms fd0 by simp
  have f1: "filter is_failed_write (trace ?w1) = filter is_failed_write (trace w)"
    by (simp add: filter_get_client)
  have c1: "closed_fds (trace ?w1) = closed_fds (trace w)"
    by (simp add: closed_fds_get_client)
  from write_loop_outcome [OF held, of "nbytes_of (auplay_st.sampc st)" env 0 0 "wh_fill env buf"]
  show ?thesis
  proof
    assume "filter is_failed_write (trace ?w2) = filter is_failed_write (trace ?w1) \<and>
        client_fd ?w2 = ?fd \<and> closed_fds (trace ?w2) = closed_fds (trace ?w1)"
    then show ?thesis
      unfolding w' by (intro disjI1) (simp add: filter_pace f1 c1)
  next
    assume a: "length (filter is_failed_write (trace ?w2)) =
          Suc (length (filter is_failed_write (trace ?w1))) \<and>
        client_fd ?w2 = -1 \<and> closed_fds (trace ?w2) = closed_fds (trace ?w1) @ [?fd] \<and>
        (\<exists>evs bs n. n \<le> 0 \<and> trace ?w2 = evs @ [EvWrite ?fd bs n, EvClose ?fd])"
    then obtain evs bs n where n: "n \<le> 0" and
      tr: "trace ?w2 = evs @ [EvWrite ?fd bs n, EvClose ?fd]"
      by blast
    have "is_failed_write (last (filter is_write
        (trace (snd (pace nf ?p (play_env.now_pace env) ?w2)))))"
      by (rule last_write_failed [OF tr n])
    with a show ?thesis
      unfolding w' by (intro disjI2) (simp add: filter_pace f1 c1)
  qed
qed

lemma play_iter_sent:
  "\<exists>m. m \<le> nbytes_of (auplay_st.sampc st) \<and>
     sent_bytes (trace (snd (snd (play_iter st env (nf, buf, w))))) =
       sent_bytes (trace w) @ take m (wh_fill env buf)"
proof -
  let ?w0 = "emit (EvWh (auframe_init AUFMT_S16LE (wh_fill env buf)
                  (auplay_st.sampc st) (auplay_st.srate st) 1)) w"
  let ?w1 = "snd (get_client ?w0)"
  have s1: "sent_bytes (trace ?w1) = sent_bytes (trace w)"
    by (simp add: sent_bytes_get_client)
  show ?thesis
  proof (cases "0 \<le> fst (get_client w)")
    case False
    then have "sent_bytes (trace (snd (snd (play_iter st env (nf, buf, w))))) =
        sent_bytes (trace w) @ take 0 (wh_fill env buf)"
      by (simp add: play_iter_unfold s1)
    then show ?thesis by (intro exI [of _ 0]) simp
  next
    case True
    from sent_bytes_write_loop [of "nbytes_of (auplay_st.sampc st)" 0 "fst (get_client w)" env 0
        "wh_fill env buf" ?w1]
    obtain m where "m \<le> nbytes_of (auplay_st.sampc st)"
      "sent_bytes (trace (write_loop (fst (get_client w)) (nbytes_of (auplay_st.sampc st)) env 0 0
          (wh_fill env buf) ?w1)) = sent_bytes (trace ?w1) @ take m (wh_fill env buf)"
      by auto
    with True s1 show ?thesis
      by (intro exI [of _ m]) (simp add: play_iter_unfold)
  qed
qed

lemma play_iter_no_errh:
  "filter is_errh (trace (snd (snd (play_iter st env (nf, buf, w))))) = filter is_errh (trace w)"
  by (subst filter_play_iter) simp_all

lemma src_iter_no_errh:
  "filter is_errh (trace (snd (snd (src_iter st env (nf, buf, w))))) = filter is_errh (trace w)"
  by (subst filter_src_iter) simp_all

section \<open>Two threads inside \<^verbatim>\<open>get_client\<close>\<close>

lemma slot_inv_sym: "slot_inv w0 w p q = slot_inv w0 w q p"
  by (auto simp: slot_inv_def add.commute union_commute)

lemma slot_inv_init: "slot_inv w0 w0 GcStart GcStart"
  by (simp add: slot_inv_def)

lemma pc_ok_trace [simp]: "pc_ok (w\<lparr> trace := tr \<rparr>) p = pc_ok w p"
  by (cases p) simp_all

lemma pc_ok_backlog [simp]: "pc_ok (w\<lparr> backlog := b \<rparr>) p = pc_ok w p"
  by (cases p) simp_all

lemma pc_ok_emit [simp]: "pc_ok (emit e w) p = pc_ok w p"
  by (simp add: emit_def)

lemma held_emit [simp]: "held (emit e w) = held w"
  by (simp add: held_def)

lemma held_backlog [simp]: "held (w\<lparr> backlog := b \<rparr>) = held w"
  by (simp add: held_def)

lemma pc_ok_fill:
  "client_fd w < 0 \<Longrightarrow> pc_ok w q \<Longrightarrow> pc_ok (w\<lparr> client_fd := a \<rparr>) q"
  by (cases q) auto

lemma slot_inv_step:
  assumes inv: "slot_inv w0 w p q"
    and nonneg: "\<forall>x\<in>set (backlog w0). 0 \<le> x"
    and step: "thr_step p w = (p', w')"
  shows "slot_inv w0 w' p' q"
proof -
  from inv obtain taken nc where
    bl: "backlog w0 = taken @ backlog w" and
    cl: "closed_fds (trace w) = closed_fds (trace w0) @ nc" and
    ms: "mset (held w0 @ taken) = mset (in_flight p @ in_flight q @ held w @ nc)" and
    em: "client_fd w < 0 \<longrightarrow> nc = []" and
    tk: "length taken \<le> took p + took q" and
    okp: "pc_ok w p" and okq: "pc_ok w q"
    unfolding slot_inv_def by blast
  show ?thesis
  proof (cases p)
    case GcStart
    with step have "p' = GcPeeked (client_fd w)" "w' = w" by auto
    with GcStart bl cl ms em tk okq show ?thesis
      unfolding slot_inv_def by auto
  next
    case (GcPeeked f)
    show ?thesis
    proof (cases "0 \<le> f")
      case True
      with GcPeeked step have s: "p' = GcRet f" "w' = w" by auto
      from True GcPeeked okp have "f = client_fd w" by simp
      with s True GcPeeked bl cl ms em tk okq show ?thesis
        unfolding slot_inv_def by auto
    next
      case False
      show ?thesis
      proof (cases "backlog w")
        case Nil
        with False GcPeeked step have s: "p' = GcRet (-1)" "w' = emit (EvAccept (-1)) w"
          by (auto simp: sys_accept_def)
        from tk GcPeeked have "length taken \<le> took (GcRet (-1)) + took q" by simp
        with s GcPeeked bl cl ms em okq show ?thesis
          unfolding slot_inv_def by auto
      next
        case (Cons a rest)
        with bl nonneg have a: "0 \<le> a" by simp
        with False GcPeeked step Cons have s: "p' = GcAccepted a"
          "w' = emit (EvSetBlocking a) (emit (EvAccept a) (w\<lparr> backlog := rest \<rparr>))"
          by (auto simp: sys_accept_def)
        have bl': "backlog w0 = (taken @ [a]) @ backlog w'"
          using bl Cons s by simp
        have cl': "closed_fds (trace w') = closed_fds (trace w0) @ nc"
          using cl s by simp
        have ms': "mset (held w0 @ taken @ [a]) =
            mset (in_flight p' @ in_flight q @ held w' @ nc)"
          using ms s GcPeeked by simp
        have em': "client_fd w' < 0 \<longrightarrow> nc = []" using em s by simp
        have tk': "length (taken @ [a]) \<le> took p' + took q"
          using tk s GcPeeked by simp
        have ok': "pc_ok w' p'" "pc_ok w' q" using a s okq by simp_all
        show ?thesis
          unfolding slot_inv_def using bl' cl' ms' em' tk' ok' by (metis append.assoc)
      qed
    qed
  next
    case (GcAccepted a)
    with okp have a: "0 \<le> a" by simp
    show ?thesis
    proof (cases "0 \<le> client_fd w")
      case True
      with GcAccepted step have s: "p' = GcLeave (client_fd w)" "w' = emit (EvClose a) w"
        by (auto simp: gc_install_def)
      have cl': "closed_fds (trace w') = closed_fds (trace w0) @ (nc @ [a])"
        using cl s by simp
      have ms': "mset (held w0 @ taken) =
          mset (in_flight p' @ in_flight q @ held w' @ (nc @ [a]))"
        using ms s GcAccepted by simp
      have em': "client_fd w' < 0 \<longrightarrow> nc @ [a] = []" using True s by simp
      have tk': "length taken \<le> took p' + took q"
        using tk s GcAccepted True by simp
      have ok': "pc_ok w' p'" "pc_ok w' q" using True s okq by simp_all
      have bl': "backlog w0 = taken @ backlog w'" using bl s by simp
      show ?thesis
        unfolding slot_inv_def using bl' cl' ms' em' tk' ok' by blast
    next
      case False
      with GcAccepted step have s: "p' = GcLeave a" "w' = w\<lparr> client_fd := a \<rparr>"
        by (auto simp: gc_install_def)
      from False em have nc: "nc = []" by simp
      have hw: "held w = []" using False by (simp add: held_def)
      have hw': "held w' = [a]" using a s by (simp add: held_def)
      have cl': "closed_fds (trace w') = closed_fds (trace w0) @ nc"
        using cl s by simp
      have ms': "mset (held w0 @ taken) = mset (in_flight p' @ in_flight q @ held w' @ nc)"
        using ms s GcAccepted hw hw' by simp
      have em': "client_fd w' < 0 \<longrightarrow> nc = []" using nc by simp
      have tk': "length taken \<le> took p' + took q"
        using tk s GcAccepted a by simp
      have okq': "pc_ok w' q" unfolding s using False okq by (intro pc_ok_fill) simp_all
      have okp': "pc_ok w' p'" using a s by simp
      have bl': "backlog w0 = taken @ backlog w'" using bl s by simp
      show ?thesis
        unfolding slot_inv_def using bl' cl' ms' em' tk' okp' okq' by blast
    qed
  next
    case (GcLeave r)
    with step have s: "p' = GcRet r" "w' = w" by auto
    with GcLeave bl cl ms em tk okp okq show ?thesis
      unfolding slot_inv_def by auto
  next
    case (GcRet r)
    with step have "p' = GcRet r" "w' = w" by auto
    with GcRet inv show ?thesis by simp
  next
    case (DropStart fd)
    with okp show ?thesis by simp
  next
    case DropRet
    with okp show ?thesis by simp
  qed
qed

lemma slot_inv_conc_step:
  assumes "slot_inv w0 (shared c) (t_src c) (t_play c)" "\<forall>x\<in>set (backlog w0). 0 \<le> x"
  shows "slot_inv w0 (shared (conc_step t c)) (t_src (conc_step t c)) (t_play (conc_step t c))"
proof (cases t)
  case SrcT
  obtain p' w' where st: "thr_step (t_src c) (shared c) = (p', w')"
    by (cases "thr_step (t_src c) (shared c)") auto
  from slot_inv_step [OF assms st] SrcT st show ?thesis by simp
next
  case PlayT
  obtain p' w' where st: "thr_step (t_play c) (shared c) = (p', w')"
    by (cases "thr_step (t_play c) (shared c)") auto
  from assms(1) have "slot_inv w0 (shared c) (t_play c) (t_src c)" by (simp add: slot_inv_sym)
  from slot_inv_step [OF this assms(2) st] have "slot_inv w0 w' (t_src c) p'"
    by (simp add: slot_inv_sym)
  with PlayT st show ?thesis by simp
qed

lemma slot_inv_run:
  assumes "\<forall>x\<in>set (backlog w0). 0 \<le> x"
  shows "slot_inv w0 (shared c) (t_src c) (t_play c) \<Longrightarrow>
     slot_inv w0 (shared (run_sched sched c)) (t_src (run_sched sched c)) (t_play (run_sched sched c))"
proof (induction sched arbitrary: c)
  case Nil
  then show ?case by simp
next
  case (Cons t sched)
  from slot_inv_conc_step [OF Cons.prems assms, of t] Cons.IH [of "conc_step t c"]
  show ?case by simp
qed

lemma closed_since_append:
  "closed_fds (trace w) = closed_fds (trace w0) @ nc \<Longrightarrow> closed_since w0 w = nc"
  by (simp add: closed_since_def)

lemma two_tokens:
  assumes "mset [a, b] = mset (s # nc)"
  shows "(s = a \<and> nc = [b]) \<or> (s = b \<and> nc = [a])"
proof -
  from assms have "length [a, b] = length (s # nc)" by (rule mset_eq_length)
  then obtain x where nc: "nc = [x]" by (cases nc) auto
  with assms have "{#a, b#} = {#s, x#}" by simp
  then have "(a = s \<and> b = x) \<or> (a = x \<and> b = s)"
    by (auto simp: add_eq_conv_ex)
  with nc show ?thesis by auto
qed

lemma get_client_steps:
  "run_sched [SrcT, SrcT, SrcT, SrcT] \<lparr> shared = w, t_src = GcStart, t_play = q \<rparr> =
     \<lparr> shared = snd (get_client w), t_src = GcRet (fst (get_client w)), t_play = q \<rparr>"
  by (simp add: get_client_def gc_after_peek_def gc_install_def sys_accept_def
      split: list.splits)


lemma two_callers_inv:
  assumes "\<forall>x\<in>set (backlog w0). 0 \<le> x"
    and "c = run_sched sched \<lparr> shared = w0, t_src = GcStart, t_play = GcStart \<rparr>"
  shows "slot_inv w0 (shared c) (t_src c) (t_play c)"
  unfolding assms(2) by (rule slot_inv_run [OF assms(1)]) (simp add: slot_inv_init)

section \<open>One callback per pass\<close>

text \<open>
  Claim C1. Every pass of the inbound loop calls \<^verbatim>\<open>rh\<close> exactly once, whatever the
  environment does (no peer, a peer with or without data, a failing read), and it is
  the last thing the pass does. Every pass of the outbound loop calls \<^verbatim>\<open>wh\<close> exactly
  once, before anything else, so before it looks for a peer. A thread that got its
  buffer has therefore made as many calls as it has made passes.
\<close>

theorem callback_once_per_pass:
  "length (filter is_rh (trace (snd (snd (src_iter st env (nf, buf, w)))))) =
     Suc (length (filter is_rh (trace w))) \<and>
   (\<exists>evs. trace (snd (snd (src_iter st env (nf, buf, w)))) =
      evs @ [EvRh (auframe_init AUFMT_S16LE (fst (snd (src_iter st env (nf, buf, w))))
                     (ausrc_st.sampc st) (ausrc_st.srate st) 1)]) \<and>
   length (filter is_wh (trace (snd (snd (play_iter pst penv (pnf, pbuf, pw)))))) =
     Suc (length (filter is_wh (trace pw))) \<and>
   (\<exists>evs. trace (snd (snd (play_iter pst penv (pnf, pbuf, pw)))) =
      trace pw @ EvWh (auframe_init AUFMT_S16LE (wh_fill penv pbuf)
                         (auplay_st.sampc pst) (auplay_st.srate pst) 1) # evs) \<and>
   length (filter is_rh (trace (snd (src_thread st True now0 envs w)))) =
     length (filter is_rh (trace w)) + length envs \<and>
   length (filter is_wh (trace (snd (play_thread pst True pnow0 penvs pw)))) =
     length (filter is_wh (trace pw)) + length penvs"
proof -
  have "length (filter is_rh (trace (snd (src_thread st True now0 envs w)))) =
     length (filter is_rh (trace w)) + length envs"
    using src_loop_rh_count [of st envs "(now0, replicate (nbytes_of (ausrc_st.sampc st)) 0, w)"]
    by (simp add: src_thread_def Let_def case_prod_beta)
  moreover have "length (filter is_wh (trace (snd (play_thread pst True pnow0 penvs pw)))) =
     length (filter is_wh (trace pw)) + length penvs"
    using play_loop_wh_count [of pst penvs "(pnow0, replicate (nbytes_of (auplay_st.sampc pst)) 0, pw)"]
    by (simp add: play_thread_def Let_def case_prod_beta)
  ultimately show ?thesis
    using src_iter_rh_count [of st env "(nf, buf, w)"]
      play_iter_wh_count [of pst penv "(pnf, pbuf, pw)"]
      src_iter_ends_with_rh [of st env nf buf w]
      play_iter_starts_with_wh [of pst penv pnf pbuf pw]
    by simp
qed

theorem callback_once_per_pass_witness:
  "length (filter is_rh (trace (snd (snd (src_iter src_st2 env_stall (1000, [0, 0, 0, 0], w_peer)))))) = 1 \<and>
   length (filter is_wh (trace (snd (snd (play_iter play_st2 penv_fail (1000, [0, 0, 0, 0], w_empty)))))) = 1"
  using callback_once_per_pass [where st = src_st2 and env = env_stall and nf = 1000
      and buf = "[0, 0, 0, 0]" and w = w_peer and pst = play_st2 and penv = penv_fail
      and pnf = 1000 and pbuf = "[0, 0, 0, 0]" and pw = w_empty]
  by (simp add: w_peer_def w_empty_def)

section \<open>Silence substitution\<close>

text \<open>
  Claim C2. Take any state the inbound loop can be in (the state after any number of
  passes since the thread allocated its buffer). If the next pass finds no peer, or its
  \<^verbatim>\<open>poll\<close> does not report readable data (in particular when the wait times out,
  \<^verbatim>\<open>poll\<close> returning 0), the frame this pass hands to \<^verbatim>\<open>rh\<close> has the configured number
  of samples and every sample is zero.
\<close>

theorem silence_when_no_data:
  assumes "s = src_loop st envs0 (now0, replicate (nbytes_of (ausrc_st.sampc st)) 0, w0)"
    and "fst (get_client (snd (snd s))) < 0 \<or>
         \<not> (0 < poll_ret env \<and> poll_revents env AND POLLIN \<noteq> 0)"
  shows "rh_frames (trace (snd (snd (src_iter st env s)))) =
           rh_frames (trace (snd (snd s))) @
           [\<lparr> auframe.fmt = AUFMT_S16LE,
              auframe.sampv = replicate (2 * unat (ausrc_st.sampc st)) 0,
              auframe.sampc = ausrc_st.sampc st,
              auframe.srate = ausrc_st.srate st,
              auframe.ch = 1 \<rparr>] \<and>
         samples_of (replicate (2 * unat (ausrc_st.sampc st)) 0) =
           replicate (unat (ausrc_st.sampc st)) 0"
proof -
  obtain nf buf w where s: "s = (nf, buf, w)" by (cases s) auto
  have "length (fst (snd s)) = nbytes_of (ausrc_st.sampc st)"
    unfolding assms(1) by (rule src_loop_buf_length) simp
  with s have len: "length buf = nbytes_of (ausrc_st.sampc st)" by simp
  have buf: "fst (snd (src_iter st env (nf, buf, w))) = replicate (2 * unat (ausrc_st.sampc st)) 0"
    using src_iter_silent_buf [OF len, of w env nf] assms(2) s
    by (simp add: nbytes_of_eq)
  have "filter is_rh (trace (snd (snd (src_iter st env (nf, buf, w))))) =
          filter is_rh (trace w) @
          [EvRh (auframe_init AUFMT_S16LE (replicate (2 * unat (ausrc_st.sampc st)) 0)
                   (ausrc_st.sampc st) (ausrc_st.srate st) 1)]"
    by (subst filter_src_iter) (simp_all add: buf)
  then have "rh_frames (filter is_rh (trace (snd (snd (src_iter st env (nf, buf, w)))))) =
          rh_frames (filter is_rh (trace w)) @
          [auframe_init AUFMT_S16LE (replicate (2 * unat (ausrc_st.sampc st)) 0)
                   (ausrc_st.sampc st) (ausrc_st.srate st) 1]"
    by simp
  then show ?thesis
    by (simp add: rh_frames_filter s auframe_init_def samples_of_zero)
qed

theorem silence_when_no_data_witness:
  "rh_frames (trace (snd (snd (src_iter src_st2 env_timeout
      (src_loop src_st2 [env_full] (1000, replicate (nbytes_of (ausrc_st.sampc src_st2)) 0,
         w_two_pending)))))) =
   [\<lparr> auframe.fmt = AUFMT_S16LE, auframe.sampv = [1, 2, 3, 4], auframe.sampc = 2,
      auframe.srate = 100, auframe.ch = 1 \<rparr>,
    \<lparr> auframe.fmt = AUFMT_S16LE, auframe.sampv = [0, 0, 0, 0], auframe.sampc = 2,
      auframe.srate = 100, auframe.ch = 1 \<rparr>]"
proof -
  let ?s = "src_loop src_st2 [env_full]
              (1000, replicate (nbytes_of (ausrc_st.sampc src_st2)) 0, w_two_pending)"
  have timeout: "fst (get_client (snd (snd ?s))) < 0 \<or>
      \<not> (0 < poll_ret env_timeout \<and> poll_revents env_timeout AND POLLIN \<noteq> 0)"
    by (simp add: env_timeout_def)
  have before: "rh_frames (trace (snd (snd ?s))) =
      [\<lparr> auframe.fmt = AUFMT_S16LE, auframe.sampv = [1, 2, 3, 4], auframe.sampc = 2,
         auframe.srate = 100, auframe.ch = 1 \<rparr>]"
    by code_simp
  have two: "replicate (2 * unat (ausrc_st.sampc src_st2)) (0 :: u8) = [0, 0, 0, 0]"
    by code_simp
  have st: "ausrc_st.sampc src_st2 = 2" "ausrc_st.srate src_st2 = 100"
    by (simp_all add: src_st2_def)
  have inst: "rh_frames (trace (snd (snd (src_iter src_st2 env_timeout ?s)))) =
      rh_frames (trace (snd (snd ?s))) @
      [\<lparr> auframe.fmt = AUFMT_S16LE,
         auframe.sampv = replicate (2 * unat (ausrc_st.sampc src_st2)) 0,
         auframe.sampc = ausrc_st.sampc src_st2,
         auframe.srate = ausrc_st.srate src_st2,
         auframe.ch = 1 \<rparr>]"
    using silence_when_no_data [OF refl timeout] by (rule conjunct1)
  show ?thesis
    by (subst inst, subst before, subst two) (simp only: st append.simps)
qed

section \<open>The timing cursor\<close>



section \<open>The accept race\<close>

text \<open>
  Claim C4. Both loops call \<^verbatim>\<open>get_client\<close> while the slot is empty and two connections
  \<open>a\<close> and \<open>b\<close> are pending. Whatever the order in which the two threads take their
  steps, once both calls have returned and both connections have been taken from the
  backlog, the slot holds one of the two descriptors, the other one has been closed,
  once, nothing else has been closed, and both calls have returned the descriptor in the
  slot.
\<close>

theorem accept_race_single_owner:
  assumes "client_fd w0 < 0" and "backlog w0 = a # b # rest"
    and "\<forall>x\<in>set (backlog w0). 0 \<le> x"
    and "c = run_sched sched \<lparr> shared = w0, t_src = GcStart, t_play = GcStart \<rparr>"
    and "t_src c = GcRet r1" and "t_play c = GcRet r2" and "backlog (shared c) = rest"
  shows "(client_fd (shared c) = a \<and> closed_since w0 (shared c) = [b] \<or>
          client_fd (shared c) = b \<and> closed_since w0 (shared c) = [a]) \<and>
         r1 = client_fd (shared c) \<and> r2 = client_fd (shared c)"
proof -
  from two_callers_inv [OF assms(3,4)] obtain taken nc where
    bl: "backlog w0 = taken @ backlog (shared c)" and
    cl: "closed_fds (trace (shared c)) = closed_fds (trace w0) @ nc" and
    ms: "mset (held w0 @ taken) =
      mset (in_flight (t_src c) @ in_flight (t_play c) @ held (shared c) @ nc)" and
    em: "client_fd (shared c) < 0 \<longrightarrow> nc = []" and
    tk: "length taken \<le> took (t_src c) + took (t_play c)" and
    ok1: "pc_ok (shared c) (t_src c)" and ok2: "pc_ok (shared c) (t_play c)"
    unfolding slot_inv_def by blast
  from bl assms(2,7) have taken: "taken = [a, b]" by simp
  have h0: "held w0 = []" using assms(1) by (simp add: held_def)
  from ms have ms': "mset [a, b] = mset (held (shared c) @ nc)"
    by (simp add: taken h0 assms(5,6))
  have full: "0 \<le> client_fd (shared c)"
  proof (rule ccontr)
    assume "\<not> 0 \<le> client_fd (shared c)"
    with em have "nc = []" "held (shared c) = []" by (simp_all add: held_def)
    with ms' show False by simp
  qed
  then have "held (shared c) = [client_fd (shared c)]" by (simp add: held_def)
  with ms' have "mset [a, b] = mset (client_fd (shared c) # nc)" by simp
  from two_tokens [OF this] closed_since_append [OF cl]
  have slot: "client_fd (shared c) = a \<and> closed_since w0 (shared c) = [b] \<or>
      client_fd (shared c) = b \<and> closed_since w0 (shared c) = [a]"
    by auto
  from tk have "2 \<le> took (GcRet r1) + took (GcRet r2)"
    by (simp add: taken assms(5,6))
  then have "0 \<le> r1" "0 \<le> r2" by (auto split: if_splits)
  with ok1 ok2 have "r1 = client_fd (shared c)" "r2 = client_fd (shared c)"
    by (auto simp: assms(5,6))
  with slot show ?thesis by blast
qed


theorem accept_race_single_owner_witness:
  "client_fd (shared (run_sched [PlayT, SrcT, PlayT, SrcT, PlayT, SrcT, SrcT, PlayT]
       \<lparr> shared = w_two_pending, t_src = GcStart, t_play = GcStart \<rparr>)) = 7 \<and>
   closed_since w_two_pending
     (shared (run_sched [PlayT, SrcT, PlayT, SrcT, PlayT, SrcT, SrcT, PlayT]
       \<lparr> shared = w_two_pending, t_src = GcStart, t_play = GcStart \<rparr>)) = [8]"
proof -
  let ?c = "run_sched [PlayT, SrcT, PlayT, SrcT, PlayT, SrcT, SrcT, PlayT]
       \<lparr> shared = w_two_pending, t_src = GcStart, t_play = GcStart \<rparr>"
  have empty: "client_fd w_two_pending < 0" and two: "backlog w_two_pending = 7 # 8 # []"
    and nonneg: "\<forall>x\<in>set (backlog w_two_pending). 0 \<le> x"
    by (simp_all add: w_two_pending_def)
  have src: "t_src ?c = GcRet 7" and play: "t_play ?c = GcRet 7"
    and rest: "backlog (shared ?c) = []"
    by (simp_all add: w_two_pending_def sys_accept_def gc_install_def)
  from accept_race_single_owner [OF empty two nonneg refl src play rest]
  have "(client_fd (shared ?c) = 7 \<and> closed_since w_two_pending (shared ?c) = [8] \<or>
         client_fd (shared ?c) = 8 \<and> closed_since w_two_pending (shared ?c) = [7]) \<and>
        7 = client_fd (shared ?c)"
    by blast
  then show ?thesis by auto
qed

section \<open>Dropping a handle\<close>

text \<open>
  Claim C5. For a handle \<open>fd\<close> (a descriptor, so not negative): if the slot holds
  \<open>fd\<close>, \<^verbatim>\<open>drop_client(fd)\<close> closes it once and empties the slot; if the slot holds
  anything else, or nothing, \<^verbatim>\<open>drop_client(fd)\<close> changes nothing at all, so nothing is
  closed and another handle stays in the slot. Dropping the same handle a second time
  changes nothing.
\<close>

theorem drop_client_only_held:
  assumes "0 \<le> fd"
  shows "(client_fd w = fd \<longrightarrow>
            drop_client fd w = w\<lparr> trace := trace w @ [EvClose fd], client_fd := -1 \<rparr>) \<and>
         (client_fd w \<noteq> fd \<longrightarrow> drop_client fd w = w) \<and>
         (client_fd (drop_client fd w) = -1 \<and>
            closed_fds (trace (drop_client fd w)) = closed_fds (trace w) @ [fd]
          \<longleftrightarrow> client_fd w = fd) \<and>
         drop_client fd (drop_client fd w) = drop_client fd w"
  using assms by (auto simp: drop_client_def emit_def)

theorem drop_client_only_held_witness:
  "drop_client 5 w_peer = \<lparr> client_fd = -1, backlog = [], trace = [EvClose 5] \<rparr> \<and>
   drop_client 6 w_peer = w_peer \<and>
   drop_client 5 (drop_client 5 w_peer) = drop_client 5 w_peer"
proof -
  have five: "(0::int) \<le> 5" and six: "(0::int) \<le> 6" by simp_all
  have "client_fd w_peer = 5" "client_fd w_peer \<noteq> 6" by (simp_all add: w_peer_def)
  with drop_client_only_held [OF five, of w_peer] drop_client_only_held [OF six, of w_peer]
  have "drop_client 5 w_peer = w_peer\<lparr> trace := trace w_peer @ [EvClose 5], client_fd := -1 \<rparr>"
    and "drop_client 6 w_peer = w_peer"
    and "drop_client 5 (drop_client 5 w_peer) = drop_client 5 w_peer"
    by blast+
  then show ?thesis by (simp add: w_peer_def)
qed

section \<open>The bounded wait\<close>

text \<open>
  Claim C6. In a pass of the inbound loop that has a peer, \<^verbatim>\<open>poll\<close> is called once, on
  the peer's descriptor, with the time left until the deadline \<^verbatim>\<open>next_frame\<close> in whole
  milliseconds (the unit of \<^verbatim>\<open>poll\<close>), rounded down: never longer than the time left,
  less than a millisecond shorter, and zero once the deadline has passed. The time left
  is taken to fit the \<^verbatim>\<open>int\<close> that \<^verbatim>\<open>poll\<close> takes (less than \<open>2 ^ 31\<close> ms).
\<close>

theorem poll_timeout_is_time_left:
  assumes "0 \<le> fst (get_client w)"
    and "remaining_us nf (src_env.now_poll env) div 1000 < 2 ^ 31"
  shows "polls (trace (snd (snd (src_iter st env (nf, buf, w))))) =
           polls (trace w) @
           [(fst (get_client w), int (remaining_us nf (src_env.now_poll env) div 1000))] \<and>
         remaining_us nf (src_env.now_poll env) div 1000 * 1000
           \<le> remaining_us nf (src_env.now_poll env) \<and>
         remaining_us nf (src_env.now_poll env)
           < remaining_us nf (src_env.now_poll env) div 1000 * 1000 + 1000 \<and>
         (nf \<le> src_env.now_poll env \<longrightarrow> remaining_us nf (src_env.now_poll env) = 0)"
proof -
  have f: "filter is_poll (trace (snd (snd (src_iter st env (nf, buf, w))))) =
      filter is_poll (trace w @
        [EvPoll (fst (get_client w)) (poll_timeout_ms nf (src_env.now_poll env))])"
    using assms(1) by (subst filter_src_iter) simp_all
  have "polls (trace (snd (snd (src_iter st env (nf, buf, w))))) =
      polls (trace w @
        [EvPoll (fst (get_client w)) (poll_timeout_ms nf (src_env.now_poll env))])"
    using f by (rule polls_cong)
  also have "\<dots> = polls (trace w) @
      [(fst (get_client w), poll_timeout_ms nf (src_env.now_poll env))]"
    by simp
  finally have p1: "polls (trace (snd (snd (src_iter st env (nf, buf, w))))) =
           polls (trace w) @
           [(fst (get_client w), int (remaining_us nf (src_env.now_poll env) div 1000))]"
    by (simp only: poll_timeout_remaining [OF assms(2)])
  have p4: "nf \<le> src_env.now_poll env \<longrightarrow> remaining_us nf (src_env.now_poll env) = 0"
  proof
    assume "nf \<le> src_env.now_poll env"
    then have "\<not> src_env.now_poll env < nf" by (rule leD)
    then show "remaining_us nf (src_env.now_poll env) = 0" by (simp add: remaining_us_def)
  qed
  have p2: "remaining_us nf (src_env.now_poll env) div 1000 * 1000
           \<le> remaining_us nf (src_env.now_poll env)"
    by simp
  have p3: "remaining_us nf (src_env.now_poll env)
           < remaining_us nf (src_env.now_poll env) div 1000 * 1000 + 1000"
    by (rule less_next_milli)
  show ?thesis by (intro conjI p1 p2 p3 p4)
qed

theorem poll_timeout_is_time_left_witness:
  "polls (trace (snd (snd (src_iter src_st2 env_full (20500, [0, 0, 0, 0], w_peer))))) = [(5, 19)] \<and>
   remaining_us 20500 (src_env.now_poll env_full) = 19500"
proof -
  have peer: "0 \<le> fst (get_client w_peer)"
    by (simp add: get_client_def gc_after_peek_def w_peer_def)
  have rem: "remaining_us 20500 (src_env.now_poll env_full) = 19500"
    by (simp add: remaining_us_def env_full_def)
  have fit: "remaining_us 20500 (src_env.now_poll env_full) div 1000 < 2 ^ 31"
    unfolding rem by simp
  have fd: "fst (get_client w_peer) = 5"
    by (simp add: get_client_def gc_after_peek_def w_peer_def)
  have "polls (trace (snd (snd (src_iter src_st2 env_full (20500, [0, 0, 0, 0], w_peer))))) =
      polls (trace w_peer) @
      [(fst (get_client w_peer), int (remaining_us 20500 (src_env.now_poll env_full) div 1000))]"
    using poll_timeout_is_time_left [OF peer fit] by (rule conjunct1)
  then show ?thesis unfolding rem fd by (simp add: w_peer_def)
qed

section \<open>A peer that stalls in the middle of a frame\<close>

text \<open>
  Claim C7 says that the time a pass of the inbound loop spends blocked on the peer is
  bounded by the timeout to the next frame deadline, also when the peer delivers part of
  a frame and then stalls. Only \<^verbatim>\<open>poll\<close> is bounded. With 20 ms left to the deadline,
  a frame of four bytes, and a peer that sends one byte and nothing more for a minute,
  the pass polls for 20 ms, reads the byte, and calls \<^verbatim>\<open>read\<close> again on the blocking
  socket without a second \<^verbatim>\<open>poll\<close>; that call returns after 60 s, and only then is the
  frame handed to \<^verbatim>\<open>rh\<close>. The same holds for any other length \<open>d\<close> of the stall: the
  pass stays in \<^verbatim>\<open>read\<close> for \<open>d\<close> microseconds.
\<close>

theorem stalled_peer_blocks_read:
  "trace (snd (snd (src_iter src_st2 env_stall (21000, [0, 0, 0, 0], w_peer)))) =
     [EvPoll 5 20, EvRead 5 4 1 0, EvRead 5 3 0 60000000, EvClose 5,
      EvRh \<lparr> auframe.fmt = AUFMT_S16LE, auframe.sampv = [1, 0, 0, 0], auframe.sampc = 2,
              auframe.srate = 100, auframe.ch = 1 \<rparr>] \<and>
   remaining_us 21000 (src_env.now_poll env_stall) = 20000 \<and>
   read_blocked_us (trace (snd (snd (src_iter src_st2 env_stall (21000, [0, 0, 0, 0], w_peer)))))
     = 60000000 \<and>
   read_blocked_us (trace (snd (snd (src_iter src_st2
       (env_stall\<lparr> read_us := (\<lambda>k. if k = 0 then 0 else d) \<rparr>)
       (21000, [0, 0, 0, 0], w_peer))))) = d"
proof -
  have nb: "nbytes_of (ausrc_st.sampc src_st2) = 4"
    by (simp add: nbytes_of_eq src_st2_def)
  have st: "ausrc_st.ptime src_st2 = 20" "ausrc_st.sampc src_st2 = 2" "ausrc_st.srate src_st2 = 100"
    by (simp_all add: src_st2_def)
  have env: "src_env.now_poll env_stall = 1000" "poll_ret env_stall = 1"
    "poll_revents env_stall = 1" "src_env.now_pace env_stall = 60001000"
    "reads env_stall 0 = RdData [1]" "reads env_stall (Suc 0) = RdData []"
    "read_us env_stall 0 = 0" "read_us env_stall (Suc 0) = 60000000"
    by (simp_all add: env_stall_def)
  have gc: "get_client w_peer = (5, w_peer)"
    by (simp add: get_client_def gc_after_peek_def w_peer_def)
  have rl: "read_loop 5 4 e 0 0 [0, 0, 0, 0] w =
      ([1, 0, 0, 0],
       drop_client 5 (emit (EvRead 5 3 0 (read_us e (Suc 0))) (emit (EvRead 5 4 1 (read_us e 0)) w)))"
    if "reads e 0 = RdData [1]" "reads e (Suc 0) = RdData []" for e w
    apply (subst read_loop.simps)
    apply (simp add: that store_at_def Let_def)
    apply (subst read_loop.simps)
    apply (simp add: that memset0_def Let_def numeral_3_eq_3)
    done
  have tr: "trace (snd (snd (src_iter src_st2 e (21000, [0, 0, 0, 0], w_peer)))) =
     [EvPoll 5 20, EvRead 5 4 1 (read_us e 0), EvRead 5 3 0 (read_us e (Suc 0)), EvClose 5,
      EvRh \<lparr> auframe.fmt = AUFMT_S16LE, auframe.sampv = [1, 0, 0, 0], auframe.sampc = 2,
              auframe.srate = 100, auframe.ch = 1 \<rparr>]"
    if "reads e 0 = RdData [1]" "reads e (Suc 0) = RdData []" "src_env.now_poll e = 1000"
      "poll_ret e = 1" "poll_revents e = 1" "src_env.now_pace e = 60001000" for e
    apply (simp add: src_iter_def Let_def nb gc that POLLIN_def rl)
    apply (simp add: st poll_timeout_ms_def pace_def ptime_us_def drop_client_def w_peer_def
        auframe_init_def)
    done
  have one: "trace (snd (snd (src_iter src_st2 env_stall (21000, [0, 0, 0, 0], w_peer)))) =
     [EvPoll 5 20, EvRead 5 4 1 0, EvRead 5 3 0 60000000, EvClose 5,
      EvRh \<lparr> auframe.fmt = AUFMT_S16LE, auframe.sampv = [1, 0, 0, 0], auframe.sampc = 2,
              auframe.srate = 100, auframe.ch = 1 \<rparr>]"
    by (subst tr) (simp_all add: env)
  have any: "read_blocked_us (trace (snd (snd (src_iter src_st2
       (env_stall\<lparr> read_us := (\<lambda>k. if k = 0 then 0 else d) \<rparr>)
       (21000, [0, 0, 0, 0], w_peer))))) = d"
    by (subst tr) (simp_all add: env)
  show ?thesis
    unfolding one using any by (simp add: remaining_us_def env)
qed

section \<open>Peer errors stay local\<close>

text \<open>
  Claim C8. In a pass of the outbound loop:
  \<^item> with no peer, nothing is written and nothing is closed: the frame pulled from the
    host is simply not sent;
  \<^item> with a peer, either no \<^verbatim>\<open>write\<close> fails and the peer is kept, or exactly one
    \<^verbatim>\<open>write\<close> fails, it is the last \<^verbatim>\<open>write\<close> of the pass, the peer's descriptor is
    closed and the slot is emptied;
  \<^item> the bytes handed to the peer are a prefix of the frame pulled in this very pass, so
    what an earlier pass failed to send is never sent later;
  \<^item> the error handler \<^verbatim>\<open>errh\<close> is called neither by this loop nor by the inbound loop.
\<close>

theorem peer_errors_stay_local:
  "filter is_errh (trace (snd (snd (play_iter st env (nf, buf, w))))) = filter is_errh (trace w) \<and>
   filter is_errh (trace (snd (snd (src_iter sst senv (snf, sbuf, sw))))) = filter is_errh (trace sw) \<and>
   (fst (get_client w) < 0 \<longrightarrow>
      filter is_write (trace (snd (snd (play_iter st env (nf, buf, w))))) = filter is_write (trace w) \<and>
      closed_fds (trace (snd (snd (play_iter st env (nf, buf, w))))) = closed_fds (trace w) \<and>
      client_fd (snd (snd (play_iter st env (nf, buf, w)))) = client_fd w) \<and>
   (0 \<le> fst (get_client w) \<longrightarrow>
      (filter is_failed_write (trace (snd (snd (play_iter st env (nf, buf, w))))) =
         filter is_failed_write (trace w) \<and>
       client_fd (snd (snd (play_iter st env (nf, buf, w)))) = fst (get_client w) \<and>
       closed_fds (trace (snd (snd (play_iter st env (nf, buf, w))))) = closed_fds (trace w)) \<or>
      (length (filter is_failed_write (trace (snd (snd (play_iter st env (nf, buf, w)))))) =
         Suc (length (filter is_failed_write (trace w))) \<and>
       client_fd (snd (snd (play_iter st env (nf, buf, w)))) = -1 \<and>
       closed_fds (trace (snd (snd (play_iter st env (nf, buf, w))))) =
         closed_fds (trace w) @ [fst (get_client w)] \<and>
       is_failed_write (last (filter is_write (trace (snd (snd (play_iter st env (nf, buf, w))))))))) \<and>
   (\<exists>m. m \<le> nbytes_of (auplay_st.sampc st) \<and>
      sent_bytes (trace (snd (snd (play_iter st env (nf, buf, w))))) =
        sent_bytes (trace w) @ take m (wh_fill env buf))"
  by (intro conjI impI play_iter_no_errh src_iter_no_errh play_iter_no_peer play_iter_peer
      play_iter_sent)

theorem peer_errors_stay_local_witness:
  "client_fd (snd (snd (play_iter play_st2 penv_fail (1000, [0, 0, 0, 0], w_peer)))) = -1 \<and>
   closed_fds (trace (snd (snd (play_iter play_st2 penv_fail (1000, [0, 0, 0, 0], w_peer))))) = [5] \<and>
   filter is_write (trace (snd (snd (play_iter play_st2 penv_ok (1000, [0, 0, 0, 0], w_empty))))) = []"
proof -
  let ?W = "snd (snd (play_iter play_st2 penv_fail (1000, [0, 0, 0, 0], w_peer)))"
  let ?V = "snd (snd (play_iter play_st2 penv_ok (1000, [0, 0, 0, 0], w_empty)))"
  have fd: "fst (get_client w_peer) = 5"
    by (simp add: get_client_def gc_after_peek_def w_peer_def)
  have peer: "0 \<le> fst (get_client w_peer)"
    unfolding fd by simp
  have absent: "fst (get_client w_empty) < 0"
    by (simp add: get_client_def gc_after_peek_def sys_accept_def w_empty_def)
  have failed: "filter is_failed_write (trace ?W) \<noteq> filter is_failed_write (trace w_peer)"
    by code_simp
  have before: "closed_fds (trace w_peer) = []" "filter is_write (trace w_empty) = []"
    by (simp_all add: w_peer_def w_empty_def)
  note fail = peer_errors_stay_local [where st = play_st2 and env = penv_fail and nf = 1000
      and buf = "[0, 0, 0, 0]" and w = w_peer and sst = src_st2 and senv = env_full
      and snf = 1000 and sbuf = "[0, 0, 0, 0]" and sw = w_peer]
  note ok = peer_errors_stay_local [where st = play_st2 and env = penv_ok and nf = 1000
      and buf = "[0, 0, 0, 0]" and w = w_empty and sst = src_st2 and senv = env_full
      and snf = 1000 and sbuf = "[0, 0, 0, 0]" and sw = w_peer]
  from fail peer failed
  have "client_fd ?W = -1 \<and> closed_fds (trace ?W) = closed_fds (trace w_peer) @ [fst (get_client w_peer)]"
    by blast
  moreover from ok absent have "filter is_write (trace ?V) = filter is_write (trace w_empty)"
    by blast
  ultimately show ?thesis
    unfolding fd before by simp
qed

section \<open>Frame length\<close>

text \<open>
  Claim C9, as the code has it. Both allocators compute the number of samples per frame
  as \<^verbatim>\<open>srate * ch * ptime / 1000\<close> in 32-bit unsigned arithmetic: the product is taken
  modulo \<open>2 ^ 32\<close> and then divided. With one channel and a product that fits in 32 bits
  this is the sample rate times the frame period in milliseconds, divided by 1000. Every
  frame of the session carries this sample count, and the inbound buffer always holds
  twice as many bytes.
\<close>

theorem frame_length:
  "(src_alloc prm m t = Inr st \<longrightarrow>
      unat (ausrc_st.sampc st) =
        unat (au_prm.srate prm) * unat (au_prm.ch prm) * unat (au_prm.ptime prm) mod 2 ^ 32 div 1000 \<and>
      (au_prm.ch prm = 1 \<and> unat (au_prm.srate prm) * unat (au_prm.ptime prm) < 2 ^ 32 \<longrightarrow>
         unat (ausrc_st.sampc st) = unat (au_prm.srate prm) * unat (au_prm.ptime prm) div 1000) \<and>
      map auframe.sampc (rh_frames (trace (snd (src_thread st True now0 envs w)))) =
        map auframe.sampc (rh_frames (trace w)) @ replicate (length envs) (ausrc_st.sampc st) \<and>
      map (\<lambda>af. length (auframe.sampv af)) (rh_frames (trace (snd (src_thread st True now0 envs w)))) =
        map (\<lambda>af. length (auframe.sampv af)) (rh_frames (trace w)) @
        replicate (length envs) (2 * unat (ausrc_st.sampc st))) \<and>
   (play_alloc prm pm pt = Inr pst \<longrightarrow>
      unat (auplay_st.sampc pst) =
        unat (au_prm.srate prm) * unat (au_prm.ch prm) * unat (au_prm.ptime prm) mod 2 ^ 32 div 1000 \<and>
      (au_prm.ch prm = 1 \<and> unat (au_prm.srate prm) * unat (au_prm.ptime prm) < 2 ^ 32 \<longrightarrow>
         unat (auplay_st.sampc pst) = unat (au_prm.srate prm) * unat (au_prm.ptime prm) div 1000) \<and>
      map auframe.sampc (wh_frames (trace (snd (play_thread pst True pnow0 penvs pw)))) =
        map auframe.sampc (wh_frames (trace pw)) @ replicate (length penvs) (auplay_st.sampc pst))"
proof (intro conjI impI)
  assume a: "src_alloc prm m t = Inr st"
  from src_alloc_Inr [OF a]
  have sc: "ausrc_st.sampc st = au_prm.srate prm * au_prm.ch prm * au_prm.ptime prm div 1000"
    by simp
  show "unat (ausrc_st.sampc st) =
      unat (au_prm.srate prm) * unat (au_prm.ch prm) * unat (au_prm.ptime prm) mod 2 ^ 32 div 1000"
    unfolding sc by (rule sampc_wrapped)
  show "unat (ausrc_st.sampc st) = unat (au_prm.srate prm) * unat (au_prm.ptime prm) div 1000"
    if "au_prm.ch prm = 1 \<and> unat (au_prm.srate prm) * unat (au_prm.ptime prm) < 2 ^ 32"
    using that sampc_exact [of "au_prm.srate prm" "au_prm.ptime prm"] by (simp add: sc)
  let ?s = "(now0, replicate (nbytes_of (ausrc_st.sampc st)) (0 :: u8), w)"
  have th: "snd (src_thread st True now0 envs w) = snd (snd (src_loop st envs ?s))"
    by (simp add: src_thread_def Let_def case_prod_beta)
  have "length (fst (snd ?s)) = nbytes_of (ausrc_st.sampc st)" by simp
  from src_loop_frames [OF this, of envs]
  show "map auframe.sampc (rh_frames (trace (snd (src_thread st True now0 envs w)))) =
        map auframe.sampc (rh_frames (trace w)) @ replicate (length envs) (ausrc_st.sampc st)"
    and "map (\<lambda>af. length (auframe.sampv af)) (rh_frames (trace (snd (src_thread st True now0 envs w)))) =
        map (\<lambda>af. length (auframe.sampv af)) (rh_frames (trace w)) @
        replicate (length envs) (2 * unat (ausrc_st.sampc st))"
    unfolding th by (simp_all add: nbytes_of_eq)
next
  assume a: "play_alloc prm pm pt = Inr pst"
  from play_alloc_Inr [OF a]
  have sc: "auplay_st.sampc pst = au_prm.srate prm * au_prm.ch prm * au_prm.ptime prm div 1000"
    by simp
  show "unat (auplay_st.sampc pst) =
      unat (au_prm.srate prm) * unat (au_prm.ch prm) * unat (au_prm.ptime prm) mod 2 ^ 32 div 1000"
    unfolding sc by (rule sampc_wrapped)
  show "unat (auplay_st.sampc pst) = unat (au_prm.srate prm) * unat (au_prm.ptime prm) div 1000"
    if "au_prm.ch prm = 1 \<and> unat (au_prm.srate prm) * unat (au_prm.ptime prm) < 2 ^ 32"
    using that sampc_exact [of "au_prm.srate prm" "au_prm.ptime prm"] by (simp add: sc)
  let ?s = "(pnow0, replicate (nbytes_of (auplay_st.sampc pst)) (0 :: u8), pw)"
  have th: "snd (play_thread pst True pnow0 penvs pw) = snd (snd (play_loop pst penvs ?s))"
    by (simp add: play_thread_def Let_def case_prod_beta)
  from play_loop_frames [of pst penvs ?s]
  show "map auframe.sampc (wh_frames (trace (snd (play_thread pst True pnow0 penvs pw)))) =
        map auframe.sampc (wh_frames (trace pw)) @ replicate (length penvs) (auplay_st.sampc pst)"
    unfolding th by simp
qed

text \<open>At 8000 Hz with 20 ms frames both allocators arrive at 160 samples.\<close>

theorem frame_length_witness:
  "src_alloc prm_8k True True =
     Inr \<lparr> ausrc_st.run = True, ausrc_st.ptime = 20, ausrc_st.sampc = 160, ausrc_st.srate = 8000 \<rparr> \<and>
   play_alloc prm_8k True True =
     Inr \<lparr> auplay_st.run = True, auplay_st.ptime = 20, auplay_st.sampc = 160, auplay_st.srate = 8000 \<rparr> \<and>
   unat (160 :: u32) = unat (au_prm.srate prm_8k) * unat (au_prm.ptime prm_8k) div 1000 \<and>
   unat (160 :: u32) = 8000 * 20 div 1000"
proof -
  let ?st = "\<lparr> ausrc_st.run = True, ausrc_st.ptime = 20, ausrc_st.sampc = 160, ausrc_st.srate = 8000 \<rparr>"
  let ?pst = "\<lparr> auplay_st.run = True, auplay_st.ptime = 20, auplay_st.sampc = 160, auplay_st.srate = 8000 \<rparr>"
  have a: "src_alloc prm_8k True True = Inr ?st"
    by (simp add: src_alloc_def prm_8k_def)
  have b: "play_alloc prm_8k True True = Inr ?pst"
    by (simp add: play_alloc_def prm_8k_def)
  have c: "au_prm.ch prm_8k = 1 \<and> unat (au_prm.srate prm_8k) * unat (au_prm.ptime prm_8k) < 2 ^ 32"
    by (simp add: prm_8k_def)
  from frame_length [of prm_8k True True ?st 0 "[]" w_empty True True ?pst 0 "[]" w_empty] a b c
  have "unat (ausrc_st.sampc ?st) = unat (au_prm.srate prm_8k) * unat (au_prm.ptime prm_8k) div 1000"
    by blast
  with a b show ?thesis by (simp add: prm_8k_def)
qed

text \<open>
  The claim as stated fails for a single channel: at 48000 Hz with a frame period of
  90000 ms the 32-bit product wraps, and the allocator stores 25032 samples, not
  4320000.
\<close>

theorem frame_length_counterexample:
  "src_alloc prm_90s True True =
     Inr \<lparr> ausrc_st.run = True, ausrc_st.ptime = 90000, ausrc_st.sampc = 25032,
           ausrc_st.srate = 48000 \<rparr> \<and>
   au_prm.ch prm_90s = 1 \<and>
   unat (25032 :: u32) \<noteq> unat (au_prm.srate prm_90s) * unat (au_prm.ptime prm_90s) div 1000"
  by (simp add: src_alloc_def prm_90s_def)

section \<open>What \<^verbatim>\<open>get_client\<close> returns\<close>




end
